theory Spec2Isabelle
  imports Complex_Main
begin

section \<open>Numbers\<close>

text \<open>
  The simulator computes with Python and numpy floating-point numbers. They are modelled by
  the real numbers, extended by the three special values the program produces: the track
  hands \<^verbatim>\<open>np.inf\<close> to a vehicle that is alone in its lane, and \<^verbatim>\<open>inf - inf\<close> then yields
  \<^verbatim>\<open>nan\<close> in the safe-speed formula. Rounding, overflow and the sign of zero are outside
  the model. Comparisons with \<open>NaN\<close> are false, as in Python; division by zero follows
  numpy (the vehicles' speeds and positions are numpy floats): an infinity or \<open>NaN\<close>.
\<close>

datatype fl = Fin real | PInf | NInf | NaN

fun flt :: "fl \<Rightarrow> fl \<Rightarrow> bool" where
  "flt (Fin x) (Fin y) = (x < y)"
| "flt (Fin x) PInf = True"
| "flt NInf (Fin y) = True"
| "flt NInf PInf = True"
| "flt _ _ = False"

fun fle :: "fl \<Rightarrow> fl \<Rightarrow> bool" where
  "fle (Fin x) (Fin y) = (x \<le> y)"
| "fle (Fin x) PInf = True"
| "fle NInf (Fin y) = True"
| "fle NInf PInf = True"
| "fle PInf PInf = True"
| "fle NInf NInf = True"
| "fle _ _ = False"

definition fgt :: "fl \<Rightarrow> fl \<Rightarrow> bool" where
  "fgt x y = flt y x"

definition fge :: "fl \<Rightarrow> fl \<Rightarrow> bool" where
  "fge x y = fle y x"

fun feq :: "fl \<Rightarrow> fl \<Rightarrow> bool" where
  "feq (Fin x) (Fin y) = (x = y)"
| "feq PInf PInf = True"
| "feq NInf NInf = True"
| "feq _ _ = False"

fun fneg :: "fl \<Rightarrow> fl" where
  "fneg (Fin x) = Fin (- x)"
| "fneg PInf = NInf"
| "fneg NInf = PInf"
| "fneg NaN = NaN"

fun fadd :: "fl \<Rightarrow> fl \<Rightarrow> fl" where
  "fadd (Fin x) (Fin y) = Fin (x + y)"
| "fadd NaN _ = NaN"
| "fadd _ NaN = NaN"
| "fadd PInf NInf = NaN"
| "fadd NInf PInf = NaN"
| "fadd PInf _ = PInf"
| "fadd _ PInf = PInf"
| "fadd NInf _ = NInf"
| "fadd _ NInf = NInf"

definition fsub :: "fl \<Rightarrow> fl \<Rightarrow> fl" where
  "fsub x y = fadd x (fneg y)"

text \<open>The sign of an infinite product or quotient: the infinity itself, its negation, or
  \<open>NaN\<close> when the other operand is zero.\<close>

definition signed :: "fl \<Rightarrow> real \<Rightarrow> fl" where
  "signed i y = (if y = 0 then NaN else if 0 < y then i else fneg i)"

fun fmul :: "fl \<Rightarrow> fl \<Rightarrow> fl" where
  "fmul (Fin x) (Fin y) = Fin (x * y)"
| "fmul NaN _ = NaN"
| "fmul _ NaN = NaN"
| "fmul PInf (Fin y) = signed PInf y"
| "fmul NInf (Fin y) = signed NInf y"
| "fmul (Fin x) PInf = signed PInf x"
| "fmul (Fin x) NInf = signed NInf x"
| "fmul PInf PInf = PInf"
| "fmul NInf NInf = PInf"
| "fmul PInf NInf = NInf"
| "fmul NInf PInf = NInf"

fun fdiv :: "fl \<Rightarrow> fl \<Rightarrow> fl" where
  "fdiv (Fin x) (Fin y) = (if y = 0 then signed PInf x else Fin (x / y))"
| "fdiv NaN _ = NaN"
| "fdiv _ NaN = NaN"
| "fdiv (Fin x) PInf = Fin 0"
| "fdiv (Fin x) NInf = Fin 0"
| "fdiv PInf (Fin y) = (if 0 \<le> y then PInf else NInf)"
| "fdiv NInf (Fin y) = (if 0 \<le> y then NInf else PInf)"
| "fdiv _ _ = NaN"

text \<open>Python's \<^verbatim>\<open>min\<close> and \<^verbatim>\<open>max\<close> keep the first argument unless a later one compares
  strictly smaller (greater); with \<open>NaN\<close> they are not symmetric.\<close>

definition pymin :: "fl \<Rightarrow> fl \<Rightarrow> fl" where
  "pymin x y = (if flt y x then y else x)"

definition pymax :: "fl \<Rightarrow> fl \<Rightarrow> fl" where
  "pymax x y = (if fgt y x then y else x)"

definition pymin3 :: "fl \<Rightarrow> fl \<Rightarrow> fl \<Rightarrow> fl" where
  "pymin3 x y z = pymin (pymin x y) z"

text \<open>Python's \<^verbatim>\<open>%\<close> on floats: the remainder has the sign of the divisor; numpy gives
  \<^verbatim>\<open>nan\<close> for a zero divisor.\<close>

definition pymod :: "real \<Rightarrow> real \<Rightarrow> fl" where
  "pymod x y = (if y = 0 then NaN else Fin (x - y * of_int \<lfloor>x / y\<rfloor>))"

text \<open>The finite value of a number. It is applied to the staged speed only, which is
  finite whatever the inputs are (lemma \<open>staged_speed_finite\<close> below).\<close>

fun fin_val :: "fl \<Rightarrow> real" where
  "fin_val (Fin x) = x"
| "fin_val _ = 0"

section \<open>Random draws\<close>

text \<open>\<^verbatim>\<open>np.random.rand()\<close> reads the next number of a global stream; the stream is made
  explicit and threaded through every function that draws.\<close>

type_synonym rng = "nat \<Rightarrow> real"

definition rand :: "rng \<Rightarrow> real \<times> rng" where
  "rand g = (g 0, \<lambda>n. g (Suc n))"

section \<open>Errors\<close>

datatype error = AssertionError | ValueError | IndexError | AttributeError | TypeError

section \<open>VehicleAgent\<close>

text \<open>The attribute \<^verbatim>\<open>next_speed\<close> does not exist before the first decision step, hence
  the option; \<^verbatim>\<open>length\<close> is named \<open>length_veh\<close>.\<close>

record vehicle =
  position :: real
  current_speed :: real
  desired_speed :: real
  max_speed :: real
  length_veh :: real
  a_normal :: real
  a_max :: real
  b :: real
  TP :: real
  acceleration :: fl
  AC :: real
  next_speed :: "real option"
  speed_list :: "real list"
  position_list :: "real list"
  lane_list :: "int list"

definition VehicleAgent_init ::
  "real \<Rightarrow> real \<Rightarrow> real \<Rightarrow> real \<Rightarrow> real \<Rightarrow> real \<Rightarrow> real \<Rightarrow> real \<Rightarrow> real \<Rightarrow> real \<Rightarrow> vehicle" where
  "VehicleAgent_init pos speed desired maxs len an am bn tp ac =
     \<lparr> position = pos, current_speed = speed, desired_speed = desired, max_speed = maxs,
       length_veh = len, a_normal = an, a_max = am, b = bn, TP = tp,
       acceleration = Fin 0, AC = ac, next_speed = None,
       speed_list = [0], position_list = [0], lane_list = [0] \<rparr>"

text \<open>The constructor with its default arguments.\<close>

definition VehicleAgent :: "real \<Rightarrow> real \<Rightarrow> vehicle" where
  "VehicleAgent pos speed = VehicleAgent_init pos speed 30 35 5 3.05 6.04 0.2 1.2 0.5"

definition reset_data :: "vehicle \<Rightarrow> vehicle" where
  "reset_data v = v\<lparr> speed_list := [0], position_list := [0], lane_list := [0] \<rparr>"

text \<open>\<^verbatim>\<open>if vF <= 12.19: ... elif vF > 12.19: ...\<close>; on the reals the second test is the
  complement of the first.\<close>

definition acceleration_rate :: "real \<Rightarrow> real" where
  "acceleration_rate vF = (if vF \<le> 12.19 then 1.1 else 0.37)"

definition decceleration_rate :: "vehicle \<Rightarrow> real \<Rightarrow> fl \<Rightarrow> fl \<Rightarrow> fl \<Rightarrow> real \<Rightarrow> fl" where
  "decceleration_rate v vF vL aL gap gap_desire =
     (if vF > desired_speed v then Fin (min ((vF - desired_speed v) / 3) (a_normal v))
      else if feq (fsub gap (Fin gap_desire)) (Fin 0) \<and> \<not> fge vL (Fin vF)
        then fdiv (fsub (Fin (vF ^ 2)) (fmul vL vL)) (fmul (Fin 2) gap)
      else if flt (fsub gap (Fin gap_desire)) (Fin 0) \<and> \<not> fgt vL (Fin vF)
        then fsub aL (Fin (0.25 * a_normal v))
      else if fgt (fsub gap (Fin gap_desire)) (Fin 0) \<and> \<not> fge vL (Fin vF)
              \<and> \<not> fgt gap (Fin (3 * vF))
              \<and> \<not> (fgt gap (Fin (2 * vF)) \<and> fgt gap (Fin 7.5))
        then pymin (fadd aL (fdiv (fmul (fsub (Fin vF) vL) (fsub (Fin vF) vL)) (fmul (Fin 2) gap)))
                   (Fin (a_max v))
      else Fin 0)"

definition compute_decision :: "vehicle \<Rightarrow> fl \<Rightarrow> fl \<Rightarrow> fl \<Rightarrow> vehicle" where
  "compute_decision v gap leader_speed leader_acceleration =
     (let vF = current_speed v; vL = leader_speed; gap_desire = vF * TP v in
      if flt gap (Fin (6 * vF)) then
        (let delta = fsub gap (Fin gap_desire) in
         if fgt delta (Fin 0) then
           (if fge vL (Fin vF) then v\<lparr>acceleration := Fin (acceleration_rate vF)\<rparr>
            else if fgt gap (Fin (3 * vF)) then v\<lparr>acceleration := Fin (acceleration_rate vF)\<rparr>
            else if fgt gap (Fin (2 * vF)) \<and> fgt gap (Fin 7.5) then v\<lparr>acceleration := Fin 0\<rparr>
            else v\<lparr>acceleration := decceleration_rate v vF vL leader_acceleration gap gap_desire\<rparr>)
         else if feq delta (Fin 0) then
           (if fge vL (Fin vF) then v\<lparr>acceleration := Fin 0\<rparr>
            else v\<lparr>acceleration := decceleration_rate v vF vL leader_acceleration gap gap_desire\<rparr>)
         else if flt delta (Fin 0) then
           (if fgt vL (Fin vF) then v\<lparr>acceleration := Fin 0\<rparr>
            else v\<lparr>acceleration := decceleration_rate v vF vL leader_acceleration gap gap_desire\<rparr>)
         else v)
      else
        (let delta = vF - desired_speed v in
         if delta < 0 then v\<lparr>acceleration := Fin (acceleration_rate vF)\<rparr>
         else if delta = 0 then v\<lparr>acceleration := Fin 0\<rparr>
         else if delta > 0 then
           v\<lparr>acceleration := decceleration_rate v vF vL leader_acceleration gap gap_desire\<rparr>
         else v))"

definition compute_safe_speed :: "vehicle \<Rightarrow> fl \<Rightarrow> fl \<Rightarrow> fl" where
  "compute_safe_speed v gap leader_speed =
     (let reaction_time = Fin 1 in
      fadd leader_speed
        (fdiv (fsub gap (fmul leader_speed reaction_time))
              (fadd reaction_time
                 (fdiv (fadd (Fin (current_speed v)) leader_speed) (Fin (2 * a_max v))))))"

text \<open>The speed staged by the noise step, \<^verbatim>\<open>max(0, v_ideal - b * eta)\<close>.\<close>

definition staged_speed :: "vehicle \<Rightarrow> fl \<Rightarrow> fl \<Rightarrow> real \<Rightarrow> real \<Rightarrow> fl" where
  "staged_speed v gap leader_speed dt eta =
     (let v_safe = compute_safe_speed v gap leader_speed;
          v_ideal = pymin3 (Fin (max_speed v))
                      (fadd (Fin (current_speed v)) (fmul (acceleration v) (Fin dt))) v_safe
      in pymax (Fin 0) (fsub v_ideal (Fin (b v * eta))))"

text \<open>\<open>mean_speed = None\<close> means no centralized control. The second random number is
  drawn only when the collision test succeeds (\<^verbatim>\<open>and\<close> evaluates its right operand
  only then).\<close>

definition calculate_next_state ::
  "vehicle \<Rightarrow> fl \<Rightarrow> fl \<Rightarrow> fl \<Rightarrow> real \<Rightarrow> real option \<Rightarrow> real \<Rightarrow> real \<Rightarrow> rng \<Rightarrow> vehicle \<times> rng" where
  "calculate_next_state v gap leader_speed leader_acceleration dt mean_speed max_accel speed_push g =
     (let v1 = compute_decision v gap leader_speed leader_acceleration in
      case mean_speed of
        None \<Rightarrow>
          (let (eta, g1) = rand g;
               ns = fin_val (staged_speed v1 gap leader_speed dt eta)
           in (v1\<lparr>next_speed := Some ns\<rparr>, g1))
      | Some m \<Rightarrow>
          (let eta = 0.5;
               ns = fin_val (staged_speed v1 gap leader_speed dt eta);
               dif_speed = m - ns;
               dif_speed = max (- max_accel) (min max_accel dif_speed);
               ns = ns + dif_speed
           in if flt (Fin 0) (fadd gap (fmul (Fin 3) (fsub leader_speed (Fin ns)))) then
                (let (u, g1) = rand g in
                 if u < AC v1 then (v1\<lparr>next_speed := Some (ns + speed_push)\<rparr>, g1)
                 else (v1\<lparr>next_speed := Some ns\<rparr>, g1))
              else (v1\<lparr>next_speed := Some ns\<rparr>, g)))"

text \<open>Reading \<^verbatim>\<open>self.next_speed\<close> before any decision step raises \<^verbatim>\<open>AttributeError\<close>.\<close>

definition update_state :: "vehicle \<Rightarrow> real \<Rightarrow> int \<Rightarrow> error + vehicle" where
  "update_state v dt lane =
     (case next_speed v of
        None \<Rightarrow> Inl AttributeError
      | Some ns \<Rightarrow>
          (let v1 = v\<lparr>current_speed := ns\<rparr>;
               v2 = v1\<lparr>position := position v1 + current_speed v1 * dt\<rparr>
           in Inr (v2\<lparr> speed_list := speed_list v2 @ [current_speed v2],
                      position_list := position_list v2 @ [position v2],
                      lane_list := lane_list v2 @ [lane] \<rparr>)))"

section \<open>The life of one vehicle object\<close>

text \<open>
  What the simulation does to a vehicle object between its construction and the end of a
  run: the decision step, the commit, and the driver's periodic boundary
  (\<^verbatim>\<open>if vehicle.position >= road_length: vehicle.position -= road_length\<close>). \<open>run_ops\<close>
  applies a sequence of such operations and stops at the first exception; beside the
  vehicle it returns, for every commit in turn, the speed, position and lane that the
  commit wrote.
\<close>

datatype vop = Decide fl fl fl real "real option" real real | Commit real int | Wrap real

fun is_Commit :: "vop \<Rightarrow> bool" where
  "is_Commit (Commit d lane) = True"
| "is_Commit _ = False"

fun run_ops ::
  "vehicle \<Rightarrow> rng \<Rightarrow> (real \<times> real \<times> int) list \<Rightarrow> vop list
     \<Rightarrow> error + (vehicle \<times> rng \<times> (real \<times> real \<times> int) list)" where
  "run_ops v g hs [] = Inr (v, g, hs)"
| "run_ops v g hs (Decide gap vL aL d m ma sp # ops) =
     (let (v', g') = calculate_next_state v gap vL aL d m ma sp g in run_ops v' g' hs ops)"
| "run_ops v g hs (Commit d lane # ops) =
     (case update_state v d lane of
        Inl e \<Rightarrow> Inl e
      | Inr v' \<Rightarrow> run_ops v' g (hs @ [(current_speed v', position v', lane)]) ops)"
| "run_ops v g hs (Wrap road_length # ops) =
     run_ops (if position v \<ge> road_length then v\<lparr>position := position v - road_length\<rparr> else v)
       g hs ops"

section \<open>Lane changing intent\<close>

text \<open>
  Vehicles are objects: a lane holds references to them, the same vehicle is reached as
  "the current vehicle" and as a neighbour, and the code compares vehicles by identity
  (the class defines no \<^verbatim>\<open>__eq__\<close>). References are natural numbers and the store \<open>h\<close>
  maps a reference to the vehicle's state. A pair of neighbours is
  \<^verbatim>\<open>(car_front, car_behind)\<close>, each possibly \<^verbatim>\<open>None\<close>; a side with no lane is \<^verbatim>\<open>None\<close>.
\<close>

type_synonym cars = "(nat option \<times> nat option) option"

definition can_switch_lane :: "(nat \<Rightarrow> vehicle) \<Rightarrow> nat \<Rightarrow> cars \<Rightarrow> error + bool" where
  "can_switch_lane h self cars =
     (case cars of
        None \<Rightarrow> Inr False
      | Some (None, None) \<Rightarrow> Inr True
      | Some (car_front, car_behind) \<Rightarrow>
          (case car_front of
             None \<Rightarrow> Inl AttributeError
           | Some f \<Rightarrow>
               if car_front = car_behind then
                 Inr (position (h self) < position (h f) - length_veh (h f)
                      \<or> position (h self) - length_veh (h self) > position (h f))
               else if position (h self) > position (h f) - length_veh (h f) then Inr False
               else (case car_behind of
                       None \<Rightarrow> Inl AttributeError
                     | Some k \<Rightarrow>
                         if position (h self) - length_veh (h self) < position (h k)
                         then Inr False else Inr True)))"

definition can_switch_lanes ::
  "(nat \<Rightarrow> vehicle) \<Rightarrow> nat \<Rightarrow> cars \<Rightarrow> cars \<Rightarrow> error + (bool \<times> bool)" where
  "can_switch_lanes h self cars_left cars_right =
     (if \<not> cars_left \<noteq> cars_right then Inl AssertionError
      else case can_switch_lane h self cars_left of
             Inl e \<Rightarrow> Inl e
           | Inr l \<Rightarrow> (case can_switch_lane h self cars_right of
                         Inl e \<Rightarrow> Inl e
                       | Inr r \<Rightarrow> Inr (l, r)))"

definition traditional_lane_switch ::
  "(nat \<Rightarrow> vehicle) \<Rightarrow> nat \<Rightarrow> nat option \<Rightarrow> cars \<Rightarrow> cars \<Rightarrow> real \<Rightarrow> error + int" where
  "traditional_lane_switch h self car_front cars_left cars_right road_length =
     (case can_switch_lanes h self cars_left cars_right of
        Inl e \<Rightarrow> Inl e
      | Inr (can_go_left, can_go_right) \<Rightarrow>
          if \<not> can_go_left \<and> \<not> can_go_right then Inr 0
          else (case car_front of
                  None \<Rightarrow> Inl AttributeError
                | Some f \<Rightarrow>
                    (let speed_difference = current_speed (h f) - current_speed (h self);
                         gap = pymod (position (h f) - position (h self)) road_length
                     in if speed_difference < - 5.0 \<and> flt gap (Fin (current_speed (h self) * 5.0))
                        then (if can_go_left then Inr 1 else Inr 0)
                        else if can_go_right then
                          (case cars_right of
                             None \<Rightarrow> Inl TypeError
                           | Some (car_front_right, _) \<Rightarrow>
                               (case car_front_right of
                                  None \<Rightarrow> Inr (- 1)
                                | Some fr \<Rightarrow>
                                    (let gap_fr = pymod (position (h fr) - position (h self))
                                                    road_length
                                     in if fgt gap_fr (Fin 200) then Inr (- 1) else Inr 0)))
                        else Inr 0)))"

definition lane_switch ::
  "(nat \<Rightarrow> vehicle) \<Rightarrow> nat \<Rightarrow> nat option \<Rightarrow> cars \<Rightarrow> cars \<Rightarrow> real \<Rightarrow> error + int" where
  "lane_switch h self car_front cars_left cars_right road_length =
     traditional_lane_switch h self car_front cars_left cars_right road_length"

section \<open>Track\<close>

text \<open>
  The lanes are lists of references into the store \<open>heap\<close>. The constructor sets
  \<^verbatim>\<open>lanes_count\<close> to the number of lists in \<^verbatim>\<open>lanes_list\<close> and nothing changes either
  afterwards, so \<open>lanes_count\<close> is derived. \<^verbatim>\<open>length\<close> is named \<open>length_track\<close>.
\<close>

record track =
  lanes_list :: "nat list list"
  length_track :: real
  dt :: real
  central_control :: bool
  max_accel :: real
  speed_push :: real
  heap :: "nat \<Rightarrow> vehicle"

definition lanes_count :: "track \<Rightarrow> int" where
  "lanes_count t = int (length (lanes_list t))"

text \<open>The place that a Python index denotes in a list of \<open>n\<close> elements: negative indices
  count from the end, anything else out of range raises \<^verbatim>\<open>IndexError\<close>.\<close>

definition py_pos :: "nat \<Rightarrow> int \<Rightarrow> error + nat" where
  "py_pos n i =
     (if 0 \<le> i \<and> i < int n then Inr (nat i)
      else if i < 0 \<and> 0 \<le> int n + i then Inr (nat (int n + i))
      else Inl IndexError)"

definition get_lane :: "track \<Rightarrow> int \<Rightarrow> error + nat list" where
  "get_lane t lane =
     (case py_pos (length (lanes_list t)) lane of
        Inl e \<Rightarrow> Inl e
      | Inr j \<Rightarrow> Inr (lanes_list t ! j))"

definition car_in_front :: "track \<Rightarrow> int \<Rightarrow> real \<Rightarrow> error + nat option" where
  "car_in_front t lane pos =
     (case get_lane t lane of
        Inl e \<Rightarrow> Inl e
      | Inr lst \<Rightarrow>
          if length lst = 0 then Inr None
          else (case find (\<lambda>veh. position (heap t veh) > pos) lst of
                  Some veh \<Rightarrow> Inr (Some veh)
                | None \<Rightarrow> Inr (Some (lst ! 0))))"

definition car_in_back :: "track \<Rightarrow> int \<Rightarrow> real \<Rightarrow> error + nat option" where
  "car_in_back t lane pos =
     (case get_lane t lane of
        Inl e \<Rightarrow> Inl e
      | Inr lst \<Rightarrow>
          if length lst = 0 then Inr None
          else (case find (\<lambda>veh. position (heap t veh) < pos) (rev lst) of
                  Some veh \<Rightarrow> Inr (Some veh)
                | None \<Rightarrow> Inr (Some (lst ! (length lst - 1)))))"

text \<open>The neighbours in one adjacent lane, \<^verbatim>\<open>None\<close> when the lane does not exist.\<close>

definition cars_of_lane :: "track \<Rightarrow> int \<Rightarrow> real \<Rightarrow> error + cars" where
  "cars_of_lane t lane pos =
     (if 0 \<le> lane \<and> lane < lanes_count t then
        (case car_in_front t lane pos of
           Inl e \<Rightarrow> Inl e
         | Inr f \<Rightarrow> (case car_in_back t lane pos of
                       Inl e \<Rightarrow> Inl e
                     | Inr k \<Rightarrow> Inr (Some (f, k))))
      else Inr None)"

text \<open>The source returns the dictionary \<^verbatim>\<open>{left_lane: left, right_lane: right}\<close>, which its
  callers read at \<^verbatim>\<open>lane + 1\<close> and \<^verbatim>\<open>lane - 1\<close>; the model returns the pair \<open>(left, right)\<close>.\<close>

definition closest_cars_sides :: "track \<Rightarrow> int \<Rightarrow> real \<Rightarrow> error + (cars \<times> cars)" where
  "closest_cars_sides t cur_lane pos =
     (let left_lane = cur_lane + 1; right_lane = cur_lane - 1 in
      case cars_of_lane t right_lane pos of
        Inl e \<Rightarrow> Inl e
      | Inr right \<Rightarrow> (case cars_of_lane t left_lane pos of
                        Inl e \<Rightarrow> Inl e
                      | Inr left \<Rightarrow> Inr (left, right)))"

text \<open>\<^verbatim>\<open>lane.remove(veh)\<close> takes the first occurrence of the reference out of the source
  list, then the reference is appended to the list of the new lane.\<close>

definition switch_lane :: "track \<Rightarrow> int \<Rightarrow> real \<Rightarrow> int \<Rightarrow> error + track" where
  "switch_lane t lane pos count =
     (let new_lane = lane + count in
      if \<not> (0 \<le> new_lane \<and> new_lane < lanes_count t) then Inl AssertionError
      else if count = 0 then Inr t
      else (case py_pos (length (lanes_list t)) lane of
              Inl e \<Rightarrow> Inl e
            | Inr j \<Rightarrow>
                (let lst = lanes_list t ! j in
                 if length lst = 0 then Inr t
                 else (case find (\<lambda>veh. position (heap t veh) = pos) lst of
                         None \<Rightarrow> Inl ValueError
                       | Some veh \<Rightarrow>
                           (let ls = (lanes_list t)[j := remove1 veh lst];
                                ls = ls[nat new_lane := ls ! nat new_lane @ [veh]]
                            in Inr (t\<lparr>lanes_list := ls\<rparr>))))))"

text \<open>\<^verbatim>\<open>lane.sort()\<close>: a stable sort by position (\<^verbatim>\<open>__lt__\<close> compares positions).\<close>

definition sort_lane :: "track \<Rightarrow> nat \<Rightarrow> track" where
  "sort_lane t i =
     t\<lparr>lanes_list := (lanes_list t)[i := sort_key (\<lambda>veh. position (heap t veh)) (lanes_list t ! i)]\<rparr>"

text \<open>The body of the inner loop of \<^verbatim>\<open>lane_switches\<close> for the vehicle at index \<open>k\<close> of lane
  \<open>i\<close>: its intent, computed on the track as it is now, and the move.\<close>

definition lane_switches_step :: "track \<Rightarrow> nat \<Rightarrow> nat \<Rightarrow> error + track" where
  "lane_switches_step t i k =
     (let vehicle = lanes_list t ! i ! k; pos = position (heap t vehicle) in
      case car_in_front t (int i) pos of
        Inl e \<Rightarrow> Inl e
      | Inr front \<Rightarrow>
          (case closest_cars_sides t (int i) pos of
             Inl e \<Rightarrow> Inl e
           | Inr (left, right) \<Rightarrow>
               (case lane_switch (heap t) vehicle front left right (length_track t) of
                  Inl e \<Rightarrow> Inl e
                | Inr count \<Rightarrow> switch_lane t (int i) pos count)))"

text \<open>\<^verbatim>\<open>for vehicle in lane\<close> reads the list by a running index and stops when the index
  reaches the current length; the loop body removes elements from that very list.\<close>

function lane_switches_loop :: "track \<Rightarrow> nat \<Rightarrow> nat \<Rightarrow> error + track" where
  "lane_switches_loop t i k =
     (if k < length (lanes_list t ! i) then
        (case lane_switches_step t i k of
           Inl e \<Rightarrow> Inl e
         | Inr t' \<Rightarrow> lane_switches_loop t' i (Suc k))
      else Inr t)"
  by pat_completeness auto
termination
proof (relation "measure (\<lambda>(t, i, k). length (lanes_list t ! i) - k)")
  show "wf (measure (\<lambda>(t, i, k). length (lanes_list t ! i) - k))" by simp
next
  fix t :: track and i k :: nat and t' :: track
  assume k: "k < length (lanes_list t ! i)" and step: "lane_switches_step t i k = Inr t'"
  have sw: "length (lanes_list u ! i) \<le> length (lanes_list t ! i)"
    if "switch_lane t (int i) p c = Inr u" for p c u
  proof (cases "c = 0")
    case True
    with that show ?thesis by (simp add: switch_lane_def Let_def split: if_splits)
  next
    case False
    from that have "0 \<le> int i + c"
      by (simp add: switch_lane_def Let_def split: if_splits)
    with False have ne: "nat (int i + c) \<noteq> i" by auto
    from that False show ?thesis
      by (auto simp: switch_lane_def Let_def py_pos_def ne length_remove1
               split: if_splits sum.splits option.splits)
  qed
  from step have "length (lanes_list t' ! i) \<le> length (lanes_list t ! i)"
    by (auto simp: lane_switches_step_def Let_def sw split: sum.splits prod.splits)
  with k show "((t', i, Suc k), (t, i, k)) \<in> measure (\<lambda>(t, i, k). length (lanes_list t ! i) - k)"
    by simp
qed

declare lane_switches_loop.simps [simp del]

text \<open>\<^verbatim>\<open>for i, lane in enumerate(self.lanes_list)\<close>: the outer list is never resized, so the
  loop visits the lane indices that exist at its start.\<close>

fun lane_switches_lanes :: "track \<Rightarrow> nat list \<Rightarrow> error + track" where
  "lane_switches_lanes t [] = Inr t"
| "lane_switches_lanes t (i # rest) =
     (case lane_switches_loop (sort_lane t i) i 0 of
        Inl e \<Rightarrow> Inl e
      | Inr t' \<Rightarrow> lane_switches_lanes t' rest)"

definition lane_switches :: "track \<Rightarrow> error + track" where
  "lane_switches t = lane_switches_lanes t [0..<length (lanes_list t)]"

text \<open>The decision pass, \<^verbatim>\<open>Track.calculate_next_state\<close>. The body of its inner loop:\<close>

definition next_state_vehicle ::
  "track \<Rightarrow> nat \<Rightarrow> real option \<Rightarrow> nat \<Rightarrow> rng \<Rightarrow> error + (track \<times> rng)" where
  "next_state_vehicle t i mean_speed_lane vehicle g =
     (case car_in_front t (int i) (position (heap t vehicle)) of
        Inl e \<Rightarrow> Inl e
      | Inr None \<Rightarrow> Inl AttributeError
      | Inr (Some leader) \<Rightarrow>
          (let gap = pymod (position (heap t leader) - position (heap t vehicle)) (length_track t);
               gap = pymax (Fin 0) (fsub gap (Fin (length_veh (heap t leader))));
               (v', g') =
                 (if leader \<noteq> vehicle then
                    calculate_next_state (heap t vehicle) gap
                      (Fin (current_speed (heap t leader))) (acceleration (heap t leader))
                      (dt t) mean_speed_lane (max_accel t) (speed_push t) g
                  else
                    calculate_next_state (heap t vehicle) PInf PInf PInf
                      (dt t) mean_speed_lane (max_accel t) (speed_push t) g)
           in Inr (t\<lparr>heap := (heap t)(vehicle := v')\<rparr>, g')))"

fun next_state_vehicles ::
  "track \<Rightarrow> nat \<Rightarrow> real option \<Rightarrow> nat list \<Rightarrow> rng \<Rightarrow> error + (track \<times> rng)" where
  "next_state_vehicles t i m [] g = Inr (t, g)"
| "next_state_vehicles t i m (vehicle # vs) g =
     (case next_state_vehicle t i m vehicle g of
        Inl e \<Rightarrow> Inl e
      | Inr (t', g') \<Rightarrow> next_state_vehicles t' i m vs g')"

text \<open>The mean speed of a lane; \<^verbatim>\<open>ZeroDivisionError\<close> on the empty lane is caught and
  gives \<^verbatim>\<open>None\<close>.\<close>

definition mean_speed_of :: "track \<Rightarrow> nat list \<Rightarrow> real option" where
  "mean_speed_of t lane =
     (if central_control t then
        (if length lane = 0 then None
         else Some (sum_list (map (\<lambda>veh. current_speed (heap t veh)) lane) / real (length lane)))
      else None)"

fun next_state_lanes :: "track \<Rightarrow> nat list \<Rightarrow> rng \<Rightarrow> error + (track \<times> rng)" where
  "next_state_lanes t [] g = Inr (t, g)"
| "next_state_lanes t (i # rest) g =
     (let t1 = sort_lane t i; lane = lanes_list t1 ! i in
      case next_state_vehicles t1 i (mean_speed_of t1 lane) lane g of
        Inl e \<Rightarrow> Inl e
      | Inr (t', g') \<Rightarrow> next_state_lanes t' rest g')"

definition track_calculate_next_state :: "track \<Rightarrow> rng \<Rightarrow> error + (track \<times> rng)" where
  "track_calculate_next_state t g = next_state_lanes t [0..<length (lanes_list t)] g"

text \<open>The constructor: \<^verbatim>\<open>lane_count\<close> empty lanes. The store of the vehicle objects is a
  parameter.\<close>

definition Track_init ::
  "nat \<Rightarrow> real \<Rightarrow> real \<Rightarrow> bool \<Rightarrow> real \<Rightarrow> real \<Rightarrow> (nat \<Rightarrow> vehicle) \<Rightarrow> track" where
  "Track_init lane_count len d cc ma sp h =
     \<lparr> lanes_list = replicate lane_count [], length_track = len, dt = d,
       central_control = cc, max_accel = ma, speed_push = sp, heap = h \<rparr>"

section \<open>Example vehicles\<close>

text \<open>Stores of vehicles with the default parameters, used in the examples below: a
  vehicle at 100 m driving 30 m/s behind one at 150 m driving 10 m/s, and a vehicle at
  100 m driving 15 m/s behind one at 110 m driving 10 m/s.\<close>

definition two_cars :: "nat \<Rightarrow> vehicle" where
  "two_cars = (\<lambda>_. VehicleAgent 100 30)(1 := VehicleAgent 150 10)"

definition boundary_cars :: "nat \<Rightarrow> vehicle" where
  "boundary_cars = (\<lambda>_. VehicleAgent 100 15)(1 := VehicleAgent 110 10)"

section \<open>The two-phase decision pass of the specification\<close>

text \<open>
  The specification asks that all decisions of a timestep be computed from the vehicles'
  states of the previous timestep. \<open>snapshot_calculate_next_state\<close> is that reference: it
  visits the lanes and vehicles in the order of \<open>track_calculate_next_state\<close>, but reads
  every decision input (positions, the leader's speed and the leader's acceleration)
  from the snapshot \<open>s\<close> of the track taken at the start of the pass, and writes the
  results into \<open>t\<close>.
\<close>

definition snapshot_next_state_vehicle ::
  "track \<Rightarrow> track \<Rightarrow> nat \<Rightarrow> real option \<Rightarrow> nat \<Rightarrow> rng \<Rightarrow> error + (track \<times> rng)" where
  "snapshot_next_state_vehicle s t i mean_speed_lane vehicle g =
     (case car_in_front s (int i) (position (heap s vehicle)) of
        Inl e \<Rightarrow> Inl e
      | Inr None \<Rightarrow> Inl AttributeError
      | Inr (Some leader) \<Rightarrow>
          (let gap = pymod (position (heap s leader) - position (heap s vehicle)) (length_track s);
               gap = pymax (Fin 0) (fsub gap (Fin (length_veh (heap s leader))));
               (v', g') =
                 (if leader \<noteq> vehicle then
                    calculate_next_state (heap s vehicle) gap
                      (Fin (current_speed (heap s leader))) (acceleration (heap s leader))
                      (dt s) mean_speed_lane (max_accel s) (speed_push s) g
                  else
                    calculate_next_state (heap s vehicle) PInf PInf PInf
                      (dt s) mean_speed_lane (max_accel s) (speed_push s) g)
           in Inr (t\<lparr>heap := (heap t)(vehicle := v')\<rparr>, g')))"

fun snapshot_next_state_vehicles ::
  "track \<Rightarrow> track \<Rightarrow> nat \<Rightarrow> real option \<Rightarrow> nat list \<Rightarrow> rng \<Rightarrow> error + (track \<times> rng)" where
  "snapshot_next_state_vehicles s t i m [] g = Inr (t, g)"
| "snapshot_next_state_vehicles s t i m (vehicle # vs) g =
     (case snapshot_next_state_vehicle s t i m vehicle g of
        Inl e \<Rightarrow> Inl e
      | Inr (t', g') \<Rightarrow> snapshot_next_state_vehicles s t' i m vs g')"

fun snapshot_next_state_lanes ::
  "track \<Rightarrow> track \<Rightarrow> nat list \<Rightarrow> rng \<Rightarrow> error + (track \<times> rng)" where
  "snapshot_next_state_lanes s t [] g = Inr (t, g)"
| "snapshot_next_state_lanes s t (i # rest) g =
     (let s1 = sort_lane s i; t1 = sort_lane t i; lane = lanes_list s1 ! i in
      case snapshot_next_state_vehicles s1 t1 i (mean_speed_of s1 lane) lane g of
        Inl e \<Rightarrow> Inl e
      | Inr (t', g') \<Rightarrow> snapshot_next_state_lanes s1 t' rest g')"

definition snapshot_calculate_next_state :: "track \<Rightarrow> rng \<Rightarrow> error + (track \<times> rng)" where
  "snapshot_calculate_next_state t g =
     snapshot_next_state_lanes t t [0..<length (lanes_list t)] g"

text \<open>Two vehicles with the default parameters on a one-lane ring of 2000 m, both driving
  10 m/s: vehicle 0 at 10 m and, 15 m behind it across the wrap-around, vehicle 1 at
  1995 m.\<close>

definition ring_cars :: "nat \<Rightarrow> vehicle" where
  "ring_cars = (\<lambda>_. VehicleAgent 10 10)(1 := VehicleAgent 1995 10)"

definition ring_track :: track where
  "ring_track = (Track_init 1 2000 1 False 1 0.5 ring_cars)\<lparr>lanes_list := [[0, 1]]\<rparr>"

section \<open>The two-phase lane change of the specification\<close>

text \<open>
  The specification asks that all lane-change decisions of a timestep be computed from
  one snapshot of the neighbours before any vehicle is moved. \<open>snapshot_lane_switches\<close> is
  that reference: it sorts every lane, computes the intent of every vehicle on the
  sorted snapshot \<open>s\<close>, and only then applies the moves, in the order of the visits.
\<close>

definition snapshot_decision :: "track \<Rightarrow> nat \<Rightarrow> nat \<Rightarrow> error + (nat \<times> real \<times> int)" where
  "snapshot_decision s i vehicle =
     (let pos = position (heap s vehicle) in
      case car_in_front s (int i) pos of
        Inl e \<Rightarrow> Inl e
      | Inr front \<Rightarrow>
          (case closest_cars_sides s (int i) pos of
             Inl e \<Rightarrow> Inl e
           | Inr (left, right) \<Rightarrow>
               (case lane_switch (heap s) vehicle front left right (length_track s) of
                  Inl e \<Rightarrow> Inl e
                | Inr count \<Rightarrow> Inr (i, pos, count))))"

fun snapshot_decisions_lane :: "track \<Rightarrow> nat \<Rightarrow> nat list \<Rightarrow> error + (nat \<times> real \<times> int) list" where
  "snapshot_decisions_lane s i [] = Inr []"
| "snapshot_decisions_lane s i (vehicle # vs) =
     (case snapshot_decision s i vehicle of
        Inl e \<Rightarrow> Inl e
      | Inr d \<Rightarrow> (case snapshot_decisions_lane s i vs of
                    Inl e \<Rightarrow> Inl e
                  | Inr ds \<Rightarrow> Inr (d # ds)))"

fun snapshot_decisions :: "track \<Rightarrow> nat list \<Rightarrow> error + (nat \<times> real \<times> int) list" where
  "snapshot_decisions s [] = Inr []"
| "snapshot_decisions s (i # rest) =
     (case snapshot_decisions_lane s i (lanes_list s ! i) of
        Inl e \<Rightarrow> Inl e
      | Inr ds \<Rightarrow> (case snapshot_decisions s rest of
                     Inl e \<Rightarrow> Inl e
                   | Inr ds' \<Rightarrow> Inr (ds @ ds')))"

fun apply_switches :: "track \<Rightarrow> (nat \<times> real \<times> int) list \<Rightarrow> error + track" where
  "apply_switches t [] = Inr t"
| "apply_switches t ((i, pos, count) # ds) =
     (case switch_lane t (int i) pos count of
        Inl e \<Rightarrow> Inl e
      | Inr t' \<Rightarrow> apply_switches t' ds)"

definition snapshot_lane_switches :: "track \<Rightarrow> error + track" where
  "snapshot_lane_switches t =
     (let lanes = [0..<length (lanes_list t)]; s = fold (\<lambda>i u. sort_lane u i) lanes t in
      case snapshot_decisions s lanes of
        Inl e \<Rightarrow> Inl e
      | Inr ds \<Rightarrow> apply_switches s ds)"

text \<open>Three lanes of a 2000 m ring, vehicles with the default parameters: in lane 0
  vehicle 0 at 0 m driving 30 m/s, 50 m behind vehicle 1 driving 10 m/s; in lane 1
  vehicle 2 at 60 m driving 10 m/s; lane 2 empty.\<close>

definition passing_cars :: "nat \<Rightarrow> vehicle" where
  "passing_cars = (\<lambda>_. VehicleAgent 0 30)(1 := VehicleAgent 50 10, 2 := VehicleAgent 60 10)"

definition passing_track :: track where
  "passing_track = (Track_init 3 2000 1 False 1 0.5 passing_cars)\<lparr>lanes_list := [[0, 1], [2], []]\<rparr>"

text \<open>Two tracks hold the same vehicles: the same store, the same number of lanes, and
  over all lanes the same set and the same number of vehicle entries.\<close>

definition same_vehicles :: "track \<Rightarrow> track \<Rightarrow> bool" where
  "same_vehicles t t' =
     (heap t' = heap t \<and> length (lanes_list t') = length (lanes_list t)
      \<and> set (concat (lanes_list t')) = set (concat (lanes_list t))
      \<and> length (concat (lanes_list t')) = length (concat (lanes_list t)))"


section \<open>Sequential resolution of lane changes\<close>

text \<open>
  One decision applied at once: the track \<open>u\<close> results from \<open>t\<close> when the vehicle at index \<open>k\<close>
  of lane \<open>i\<close> decides on the lane collections of \<open>t\<close> and its move is applied.
\<close>

inductive decided_move :: "track \<Rightarrow> nat \<Rightarrow> nat \<Rightarrow> track \<Rightarrow> bool" where
  decided_moveI:
    "car_in_front t (int i) (position (heap t (lanes_list t ! i ! k))) = Inr front \<Longrightarrow>
     closest_cars_sides t (int i) (position (heap t (lanes_list t ! i ! k))) = Inr (left, right) \<Longrightarrow>
     lane_switch (heap t) (lanes_list t ! i ! k) front left right (length_track t) = Inr count \<Longrightarrow>
     switch_lane t (int i) (position (heap t (lanes_list t ! i ! k))) count = Inr u \<Longrightarrow>
     decided_move t i k u"

text \<open>
  The scan of lane \<open>i\<close> from index \<open>k\<close>: it ends when the index has passed the end of the
  lane; after a vehicle that stays it goes on with the next index; after a move it
  resumes at the same or at the next index, on the track with the move applied.
\<close>

inductive scan_lane :: "track \<Rightarrow> nat \<Rightarrow> nat \<Rightarrow> track \<Rightarrow> bool" where
  scan_end: "\<not> k < length (lanes_list t ! i) \<Longrightarrow> scan_lane t i k t"
| scan_stay:
    "k < length (lanes_list t ! i) \<Longrightarrow> decided_move t i k t \<Longrightarrow>
     scan_lane t i (Suc k) t' \<Longrightarrow> scan_lane t i k t'"
| scan_move:
    "k < length (lanes_list t ! i) \<Longrightarrow> decided_move t i k u \<Longrightarrow> u \<noteq> t \<Longrightarrow>
     k' = k \<or> k' = Suc k \<Longrightarrow> scan_lane u i k' t' \<Longrightarrow> scan_lane t i k t'"

text \<open>The lanes in the given order: each is sorted when its turn comes and then scanned
  from its first vehicle.\<close>

inductive visit_lanes :: "track \<Rightarrow> nat list \<Rightarrow> track \<Rightarrow> bool" where
  visit_done: "visit_lanes t [] t"
| visit_lane:
    "scan_lane (sort_lane t i) i 0 u \<Longrightarrow> visit_lanes u rest t' \<Longrightarrow>
     visit_lanes t (i # rest) t'"

code_pred decided_move .

code_pred scan_lane .

code_pred visit_lanes .

section \<open>Properties of the numbers\<close>

lemma fl_fin_simps [simp]:
  "fgt (Fin x) (Fin y) = (y < x)"
  "fge (Fin x) (Fin y) = (y \<le> x)"
  "fsub (Fin x) (Fin y) = Fin (x - y)"
  by (simp_all add: fgt_def fge_def fsub_def)

lemma pymin_Fin_cases: "(\<exists>x. x \<le> m \<and> pymin (Fin m) y = Fin x) \<or> pymin (Fin m) y = NInf"
  by (cases y) (auto simp: pymin_def)

lemma pymin_NInf [simp]: "pymin NInf y = NInf"
  by (cases y) (simp_all add: pymin_def)

lemma pymin3_Fin_cases:
  "(\<exists>x. x \<le> m \<and> pymin3 (Fin m) y z = Fin x) \<or> pymin3 (Fin m) y z = NInf"
proof -
  from pymin_Fin_cases [of m y] show ?thesis
  proof
    assume "\<exists>x. x \<le> m \<and> pymin (Fin m) y = Fin x"
    then obtain x where x: "x \<le> m" "pymin (Fin m) y = Fin x" by blast
    from pymin_Fin_cases [of x z] x show ?thesis
      unfolding pymin3_def by auto
  next
    assume "pymin (Fin m) y = NInf"
    then show ?thesis by (simp add: pymin3_def)
  qed
qed

text \<open>The staged speed is a finite number between 0 and the maximum speed lowered by the
  noise, whatever the gap and the leader's values are.\<close>

lemma staged_speed_cases:
  "\<exists>x. staged_speed v gap vL d eta = Fin x \<and> 0 \<le> x \<and> (x = 0 \<or> x \<le> max_speed v - b v * eta)"
proof -
  let ?i = "pymin3 (Fin (max_speed v))
              (fadd (Fin (current_speed v)) (fmul (acceleration v) (Fin d)))
              (compute_safe_speed v gap vL)"
  have s: "staged_speed v gap vL d eta = pymax (Fin 0) (fsub ?i (Fin (b v * eta)))"
    by (simp add: staged_speed_def Let_def)
  from pymin3_Fin_cases [of "max_speed v"] show ?thesis
  proof
    assume "\<exists>x. x \<le> max_speed v \<and> ?i = Fin x"
    then obtain x where "x \<le> max_speed v" "?i = Fin x" by blast
    then show ?thesis unfolding s by (auto simp: pymax_def)
  next
    assume "?i = NInf"
    then show ?thesis unfolding s by (simp add: pymax_def fsub_def fgt_def)
  qed
qed

lemma staged_speed_finite: "\<exists>x. staged_speed v gap vL d eta = Fin x"
  using staged_speed_cases [of v gap vL d eta] by blast

section \<open>The decision model\<close>

lemma compute_decision_frame:
  "compute_decision v gap vL aL = v\<lparr>acceleration := acceleration (compute_decision v gap vL aL)\<rparr>"
  by (simp add: compute_decision_def Let_def)

lemma near_field_trichotomy:
  assumes "flt gap (Fin x)"
  shows "fgt (fsub gap (Fin y)) (Fin 0) \<or> feq (fsub gap (Fin y)) (Fin 0)
         \<or> flt (fsub gap (Fin y)) (Fin 0)"
  using assms by (cases gap) (auto simp: fsub_def fgt_def)

text \<open>
  Claim C1. For every vehicle and all decision inputs, finite or not, \<open>compute_decision\<close>
  changes nothing but \<open>acceleration\<close>, and writes there the action chosen by the
  five-branch tree: in the near field (gap below six times the own speed), with
  \<open>delta = gap - current_speed * TP\<close>: for a positive \<open>delta\<close> accelerate when the leader is at
  least as fast or the gap exceeds three times the own speed, cruise when the gap exceeds
  both twice the own speed and 7.5, decelerate otherwise; for \<open>delta = 0\<close> cruise when the
  leader is at least as fast, else decelerate; for a negative \<open>delta\<close> cruise when the
  leader is strictly faster, else decelerate; in the far field accelerate below the
  desired speed, cruise at it, decelerate above it. The first conjunct states this with
  the comparisons of the number model, the second, for a finite gap and leader speed,
  with those of the reals. With own speed 25, leader speed 25, gap 100 and \<open>TP = 1.2\<close>
  the written acceleration is 0.37.
\<close>

theorem compute_decision_tree:
  "compute_decision v gap' vL' aL =
     v\<lparr>acceleration :=
        (let vF = current_speed v; gap_desire = vF * TP v; delta = fsub gap' (Fin gap_desire);
             accelerate = Fin (acceleration_rate vF); cruise = Fin 0;
             decelerate = decceleration_rate v vF vL' aL gap' gap_desire
         in if flt gap' (Fin (6 * vF)) then
              (if fgt delta (Fin 0) then
                 (if fge vL' (Fin vF) \<or> fgt gap' (Fin (3 * vF)) then accelerate
                  else if fgt gap' (Fin (2 * vF)) \<and> fgt gap' (Fin 7.5) then cruise
                  else decelerate)
               else if feq delta (Fin 0) then (if fge vL' (Fin vF) then cruise else decelerate)
               else (if fgt vL' (Fin vF) then cruise else decelerate))
            else
              (if vF < desired_speed v then accelerate
               else if vF = desired_speed v then cruise
               else decelerate))\<rparr>
   \<and> compute_decision v (Fin gap) (Fin vL) aL =
     v\<lparr>acceleration :=
        (let vF = current_speed v; gap_desire = vF * TP v; delta = gap - gap_desire;
             accelerate = Fin (acceleration_rate vF); cruise = Fin 0;
             decelerate = decceleration_rate v vF (Fin vL) aL (Fin gap) gap_desire
         in if gap < 6 * vF then
              (if delta > 0 then
                 (if vL \<ge> vF \<or> gap > 3 * vF then accelerate
                  else if gap > 2 * vF \<and> gap > 7.5 then cruise
                  else decelerate)
               else if delta = 0 then (if vL \<ge> vF then cruise else decelerate)
               else (if vL > vF then cruise else decelerate))
            else
              (if vF < desired_speed v then accelerate
               else if vF = desired_speed v then cruise
               else decelerate))\<rparr>
   \<and> compute_decision (v\<lparr>current_speed := 25, TP := 1.2\<rparr>) (Fin 100) (Fin 25) aL
       = v\<lparr>current_speed := 25, TP := 1.2, acceleration := Fin 0.37\<rparr>"
    (is "?general \<and> ?finite \<and> ?example")
proof (intro conjI)
  show ?general
  proof (cases "flt gap' (Fin (6 * current_speed v))")
    case False
    then show ?thesis by (simp add: compute_decision_def Let_def)
  next
    case True
    from near_field_trichotomy [OF True, of "current_speed v * TP v"] True
    show ?thesis by (auto simp: compute_decision_def Let_def)
  qed
  show ?finite
    by (simp add: compute_decision_def Let_def)
  show ?example
    by (simp add: compute_decision_def Let_def acceleration_rate_def)
qed

lemma case2_val:
  "fdiv (fsub (Fin (vF ^ 2)) (fmul (Fin vL) (Fin vL))) (fmul (Fin 2) (Fin gap)) =
     (if gap = 0 then signed PInf (vF ^ 2 - vL ^ 2) else Fin ((vF ^ 2 - vL ^ 2) / (2 * gap)))"
  by (simp add: power2_eq_square)

lemma case4_val:
  assumes "vL < vF"
  shows "pymin (fadd (Fin aL) (fdiv (fmul (fsub (Fin vF) (Fin vL)) (fsub (Fin vF) (Fin vL)))
                                  (fmul (Fin 2) (Fin gap)))) (Fin am) =
     (if gap = 0 then Fin am else Fin (min (aL + (vF - vL) ^ 2 / (2 * gap)) am))"
proof -
  from assms have "0 < (vF - vL) * (vF - vL)" by simp
  with assms show ?thesis
    by (auto simp: pymin_def signed_def power2_eq_square min_def)
qed

text \<open>
  Claim C2. On finite arguments \<open>decceleration_rate\<close> is the ordered case list, the first
  match winning: (1) above the desired speed, the smaller of a third of the excess and
  \<open>a_normal\<close>; (2) gap equal to the desired gap and leader slower,
  \<open>(vF\<^sup>2 - vL\<^sup>2) / (2 gap)\<close>; (3) gap below the desired gap and leader not faster,
  \<open>aL - 0.25 a_normal\<close>; (4) gap above the desired gap, leader slower and none of the
  comfortable-gap conditions, the smaller of \<open>aL + (vF - vL)\<^sup>2 / (2 gap)\<close> and \<open>a_max\<close>;
  (5) otherwise 0. Where a quotient has the divisor \<open>gap = 0\<close>, numpy's division gives an
  infinity or \<open>NaN\<close> in case 2 and, through \<open>min\<close>, \<open>a_max\<close> in case 4. For
  \<open>vF = vL = 25\<close>, \<open>aL = 0.37\<close>, gap 100, desired gap 30 and desired speed 30 the result is 0.
\<close>

theorem decceleration_rate_cases:
  "decceleration_rate v vF (Fin vL) (Fin aL) (Fin gap) gap_desire =
     (if vF > desired_speed v then Fin (min ((vF - desired_speed v) / 3) (a_normal v))
      else if gap = gap_desire \<and> \<not> vL \<ge> vF then
        (if gap = 0 then signed PInf (vF ^ 2 - vL ^ 2) else Fin ((vF ^ 2 - vL ^ 2) / (2 * gap)))
      else if gap < gap_desire \<and> \<not> vL > vF then Fin (aL - 0.25 * a_normal v)
      else if gap > gap_desire \<and> \<not> vL \<ge> vF \<and> \<not> gap > 3 * vF
              \<and> \<not> (gap > 2 * vF \<and> gap > 7.5) then
        (if gap = 0 then Fin (a_max v) else Fin (min (aL + (vF - vL) ^ 2 / (2 * gap)) (a_max v)))
      else Fin 0)
   \<and> decceleration_rate (v\<lparr>desired_speed := 30\<rparr>) 25 (Fin 25) (Fin 0.37) (Fin 100) 30 = Fin 0"
    (is "?lhs = ?rhs \<and> ?ex")
proof
  let ?c1 = "vF > desired_speed v"
  let ?c2 = "gap = gap_desire \<and> \<not> vL \<ge> vF"
  let ?c3 = "gap < gap_desire \<and> \<not> vL > vF"
  let ?c4 = "gap > gap_desire \<and> \<not> vL \<ge> vF \<and> \<not> gap > 3 * vF \<and> \<not> (gap > 2 * vF \<and> gap > 7.5)"
  consider (one) ?c1 | (two) "\<not> ?c1" ?c2 | (three) "\<not> ?c1" "\<not> ?c2" ?c3
    | (four) "\<not> ?c1" "\<not> ?c2" "\<not> ?c3" ?c4 | (none) "\<not> ?c1" "\<not> ?c2" "\<not> ?c3" "\<not> ?c4"
    by blast
  then show "?lhs = ?rhs"
  proof cases
    case one
    then show ?thesis by (simp add: decceleration_rate_def)
  next
    case two
    then show ?thesis unfolding decceleration_rate_def case2_val by simp
  next
    case three
    then show ?thesis unfolding decceleration_rate_def by auto
  next
    case four
    then have "vL < vF" by simp
    note c4 = case4_val [OF this, of aL gap "a_max v"]
    from four show ?thesis unfolding decceleration_rate_def c4 by auto
  next
    case none
    then show ?thesis unfolding decceleration_rate_def by auto
  qed
  show ?ex by (simp add: decceleration_rate_def)
qed

section \<open>Staging and commit\<close>

lemma calculate_next_state_shape:
  "\<exists>a n g'. calculate_next_state v gap vL aL d m ma sp g
       = (v\<lparr>acceleration := a, next_speed := Some n\<rparr>, g')"
proof -
  obtain a where a: "compute_decision v gap vL aL = v\<lparr>acceleration := a\<rparr>"
    using compute_decision_frame by blast
  show ?thesis
    unfolding calculate_next_state_def a Let_def
    by (cases m; cases "rand g") (auto intro: exI)
qed

text \<open>
  Claim C9. Whatever the vehicle state and the arguments, with or without centralized
  control, \<open>calculate_next_state\<close> leaves the current speed, the position and the three
  history lists as they were: the vehicle it returns differs from the given one in
  \<open>acceleration\<close> and \<open>next_speed\<close> only. The staged speed becomes the current speed by
  \<open>update_state\<close>.
\<close>

theorem calculate_next_state_frame:
  "let v' = fst (calculate_next_state v gap vL aL d m ma sp g) in
     current_speed v' = current_speed v \<and> position v' = position v
     \<and> speed_list v' = speed_list v \<and> position_list v' = position_list v
     \<and> lane_list v' = lane_list v
     \<and> v' = v\<lparr>acceleration := acceleration v', next_speed := next_speed v'\<rparr>
     \<and> (\<exists>n. next_speed v' = Some n
            \<and> (\<exists>v''. update_state v' d' lane = Inr v'' \<and> current_speed v'' = n))"
proof -
  obtain a n g' where
    "calculate_next_state v gap vL aL d m ma sp g = (v\<lparr>acceleration := a, next_speed := Some n\<rparr>, g')"
    using calculate_next_state_shape by blast
  then show ?thesis by (simp add: update_state_def Let_def)
qed

section \<open>History lists\<close>

lemma update_state_lists:
  assumes "update_state v d lane = Inr v'"
  shows "speed_list v' = speed_list v @ [current_speed v']"
    and "position_list v' = position_list v @ [position v']"
    and "lane_list v' = lane_list v @ [lane]"
  using assms by (auto simp: update_state_def Let_def split: option.splits)

lemma calculate_next_state_lists:
  assumes "calculate_next_state v gap vL aL d m ma sp g = (v', g')"
  shows "speed_list v' = speed_list v" "position_list v' = position_list v"
    "lane_list v' = lane_list v"
  using calculate_next_state_shape [of v gap vL aL d m ma sp g] assms by auto

lemma run_ops_lists:
  assumes "run_ops v g hs ops = Inr (v', g', hs')"
  shows "length hs' = length hs + length (filter is_Commit ops)
       \<and> (speed_list v = s0 @ map fst hs \<longrightarrow> speed_list v' = s0 @ map fst hs')
       \<and> (position_list v = p0 @ map (fst \<circ> snd) hs
            \<longrightarrow> position_list v' = p0 @ map (fst \<circ> snd) hs')
       \<and> (lane_list v = l0 @ map (snd \<circ> snd) hs \<longrightarrow> lane_list v' = l0 @ map (snd \<circ> snd) hs')"
  using assms
proof (induction v g hs ops rule: run_ops.induct)
  case (1 v g hs)
  then show ?case by simp
next
  case (2 v g hs gap vL aL d m ma sp ops)
  obtain v1 g1 where c: "calculate_next_state v gap vL aL d m ma sp g = (v1, g1)"
    by (cases "calculate_next_state v gap vL aL d m ma sp g")
  with 2 have "run_ops v1 g1 hs ops = Inr (v', g', hs')" by simp
  from "2.IH" [OF c [symmetric] refl this] calculate_next_state_lists [OF c]
  show ?case by simp
next
  case (3 v g hs d lane ops)
  then obtain v1 where u: "update_state v d lane = Inr v1"
    and r: "run_ops v1 g (hs @ [(current_speed v1, position v1, lane)]) ops = Inr (v', g', hs')"
    by (auto split: sum.splits)
  from "3.IH" [OF u r] update_state_lists [OF u]
  show ?case by simp
next
  case (4 v g hs road_length ops)
  then show ?case by (simp split: if_splits)
qed

text \<open>
  Claim C10. The constructor and \<open>reset_data\<close> set the three history lists to the single
  entry 0, whatever the vehicle's position, speed and lane are. When a vehicle so
  initialised goes through any sequence of decision steps, commits and boundary
  corrections in which \<open>update_state\<close> is called \<open>T\<close> times, each list has \<open>T + 1\<close> entries,
  the entry at index 0 is 0, and the entry at index \<open>i\<close> (from 1 to \<open>T\<close>) is the speed,
  position and lane committed by the \<open>i\<close>-th call.
\<close>

theorem history_lists:
  assumes "v0 = VehicleAgent_init p s ds ms l an am bn tp ac \<or> v0 = reset_data u"
    and "run_ops v0 g [] ops = Inr (v', g', hs)"
    and "T = length (filter is_Commit ops)"
  shows "speed_list v0 = [0] \<and> position_list v0 = [0] \<and> lane_list v0 = [0]
       \<and> length hs = T
       \<and> length (speed_list v') = T + 1 \<and> length (position_list v') = T + 1
       \<and> length (lane_list v') = T + 1
       \<and> speed_list v' ! 0 = 0 \<and> position_list v' ! 0 = 0 \<and> lane_list v' ! 0 = 0
       \<and> (\<forall>i. 1 \<le> i \<and> i \<le> T \<longrightarrow>
            (speed_list v' ! i, position_list v' ! i, lane_list v' ! i) = hs ! (i - 1))"
proof -
  from assms(1) have init: "speed_list v0 = [0] \<and> position_list v0 = [0] \<and> lane_list v0 = [0]"
    by (auto simp: VehicleAgent_init_def reset_data_def)
  from run_ops_lists [OF assms(2), of "[0]" "[0]" "[0]"] init assms(3)
  have lists: "length hs = T" "speed_list v' = 0 # map fst hs"
    "position_list v' = 0 # map (fst \<circ> snd) hs" "lane_list v' = 0 # map (snd \<circ> snd) hs"
    by simp_all
  have len: "length (speed_list v') = T + 1 \<and> length (position_list v') = T + 1
       \<and> length (lane_list v') = T + 1"
    by (simp add: lists)
  have zero: "speed_list v' ! 0 = 0 \<and> position_list v' ! 0 = 0 \<and> lane_list v' ! 0 = 0"
    by (simp add: lists)
  have "(speed_list v' ! i, position_list v' ! i, lane_list v' ! i) = hs ! (i - 1)"
    if "1 \<le> i" "i \<le> T" for i
  proof -
    from that obtain j where j: "i = Suc j" "j < length hs"
      using lists(1) by (cases i) auto
    then show ?thesis by (simp add: lists)
  qed
  then have idx: "\<forall>i. 1 \<le> i \<and> i \<le> T \<longrightarrow>
            (speed_list v' ! i, position_list v' ! i, lane_list v' ! i) = hs ! (i - 1)"
    by blast
  from init lists(1) len zero idx show ?thesis by blast
qed

theorem history_lists_witness:
  "\<exists>v' g'. run_ops (VehicleAgent 1000 25) (\<lambda>_. 1 / 2) []
              [Decide (Fin 100) (Fin 25) (Fin 0.37) 1 None 1 0.5, Commit 1 3]
            = Inr (v', g', [(25.27, 1025.27, 3)])
     \<and> speed_list v' = [0, 25.27] \<and> position_list v' = [0, 1025.27] \<and> lane_list v' = [0, 3]"
proof -
  let ?ops = "[Decide (Fin 100) (Fin 25) (Fin 0.37) 1 None 1 0.5, Commit 1 3]"
  obtain r where r: "run_ops (VehicleAgent 1000 25) (\<lambda>_. 1 / 2) [] ?ops = r" by simp
  have "\<exists>v' g'. r = Inr (v', g', [(25.27, 1025.27, 3)])"
    unfolding r [symmetric]
    by (simp add: VehicleAgent_def VehicleAgent_init_def calculate_next_state_def
        compute_decision_def acceleration_rate_def rand_def staged_speed_def
        compute_safe_speed_def pymin3_def pymin_def pymax_def update_state_def Let_def)
  then obtain v' g' where v': "r = Inr (v', g', [(25.27, 1025.27, 3)])" by blast
  have T: "(1::nat) = length (filter is_Commit ?ops)" by simp
  from history_lists [OF disjI1 [OF VehicleAgent_def] v' [folded r] T]
  have "length (speed_list v') = 2 \<and> length (position_list v') = 2 \<and> length (lane_list v') = 2
      \<and> speed_list v' ! 0 = 0 \<and> position_list v' ! 0 = 0 \<and> lane_list v' ! 0 = 0
      \<and> (speed_list v' ! 1, position_list v' ! 1, lane_list v' ! 1) = (25.27, 1025.27, 3)"
    by simp
  then have "speed_list v' = [0, 25.27] \<and> position_list v' = [0, 1025.27] \<and> lane_list v' = [0, 3]"
    by (auto simp: length_Suc_conv numeral_2_eq_2)
  with v' r show ?thesis by blast
qed

section \<open>The speed bound\<close>

text \<open>Without centralized control the staged speed stays between 0 and the maximum
  speed, for every gap, every leader and every noise draw that is not negative.\<close>

lemma next_speed_bounds_no_control:
  assumes "0 \<le> max_speed v" "0 \<le> b v * g 0"
    and "calculate_next_state v gap vL aL d None ma sp g = (v', g')"
  shows "\<exists>n. next_speed v' = Some n \<and> 0 \<le> n \<and> n \<le> max_speed v"
proof -
  let ?v1 = "compute_decision v gap vL aL"
  have m: "max_speed ?v1 = max_speed v" "b ?v1 = b v"
    by (subst compute_decision_frame, simp)+
  from staged_speed_cases [of ?v1 gap vL d "g 0"] obtain x where
    x: "staged_speed ?v1 gap vL d (g 0) = Fin x" "0 \<le> x" "x = 0 \<or> x \<le> max_speed v - b v * g 0"
    unfolding m by blast
  from assms(3) have "next_speed v' = Some x"
    by (auto simp: calculate_next_state_def Let_def rand_def x)
  with x assms(1,2) show ?thesis by auto
qed

text \<open>
  Claim C3 at a concrete input. A vehicle with the default parameters (maximum speed 35)
  drives at 34.9 under centralized control, 1000 m behind a leader at 34.9, in a lane
  whose mean speed is 34.9; \<open>max_accel = 1\<close>, \<open>speed_push = 0.5\<close>, and the draw for the push is
  0.25, below \<open>AC = 0.5\<close>. The decision step stages 35.4 and the commit makes it the
  current speed, above the maximum speed.
\<close>

theorem speed_push_exceeds_max_speed:
  "map_sum id (\<lambda>v. (current_speed v, max_speed v))
     (update_state
        (fst (calculate_next_state (VehicleAgent 0 34.9) (Fin 1000) (Fin 34.9) (Fin 0) 1
                (Some 34.9) 1 0.5 (\<lambda>_. 1 / 4))) 1 0)
     = Inr (35.4, 35)"
  by (simp add: VehicleAgent_def VehicleAgent_init_def calculate_next_state_def
      compute_decision_def acceleration_rate_def decceleration_rate_def rand_def
      staged_speed_def compute_safe_speed_def pymin3_def pymin_def pymax_def
      update_state_def Let_def)

section \<open>Moving a vehicle between lanes\<close>

lemma py_pos_nat [simp]: "py_pos n (int i) = (if i < n then Inr i else Inl IndexError)"
  by (simp add: py_pos_def)

lemma py_pos_in_range: "0 \<le> lane \<Longrightarrow> lane < int n \<Longrightarrow> py_pos n lane = Inr (nat lane)"
  by (simp add: py_pos_def)

text \<open>
  Claim C6 as stated fails: on an empty source lane \<open>switch_lane\<close> finds no vehicle at the
  position and returns without an error and without a change (the guard
  \<^verbatim>\<open>if len(lane) == 0: return\<close>).
\<close>

theorem switch_lane_counterexample:
  "lanes_list (Track_init 2 2000 1 False 1 0.5 two_cars) ! 0 = []
   \<and> switch_lane (Track_init 2 2000 1 False 1 0.5 two_cars) 0 5 1
       = Inr (Track_init 2 2000 1 False 1 0.5 two_cars)"
  by (simp add: switch_lane_def Track_init_def lanes_count_def py_pos_def Let_def
      numeral_2_eq_2)

text \<open>
  Claim C6, amended. For \<open>count \<noteq> 0\<close> and an existing source lane, \<open>switch_lane\<close> fails with
  \<open>AssertionError\<close> whenever the destination index \<open>lane + count\<close> is outside
  \<open>[0, lanes_count)\<close>; otherwise it returns the track unchanged when the source lane is
  empty, fails with \<open>ValueError\<close> when the source lane is not empty and holds no vehicle at
  exactly that position, and else removes the first vehicle at that position from the
  source lane and appends it to the destination lane, leaving the other lanes and the
  vehicles as they are. An error is a result without a track: nothing was changed.
\<close>

theorem switch_lane_cases:
  assumes "count \<noteq> 0" and "0 \<le> lane" and "lane < lanes_count t"
  shows "(\<not> (0 \<le> lane + count \<and> lane + count < lanes_count t)
            \<longrightarrow> switch_lane t lane pos count = Inl AssertionError)
       \<and> (0 \<le> lane + count \<and> lane + count < lanes_count t \<longrightarrow>
            (lanes_list t ! nat lane = [] \<longrightarrow> switch_lane t lane pos count = Inr t)
          \<and> (lanes_list t ! nat lane \<noteq> []
               \<and> (\<forall>veh\<in>set (lanes_list t ! nat lane). position (heap t veh) \<noteq> pos)
               \<longrightarrow> switch_lane t lane pos count = Inl ValueError)
          \<and> (\<forall>veh. find (\<lambda>veh. position (heap t veh) = pos) (lanes_list t ! nat lane) = Some veh
               \<longrightarrow> (\<exists>t'. switch_lane t lane pos count = Inr t'
                     \<and> lanes_list t' ! nat lane = remove1 veh (lanes_list t ! nat lane)
                     \<and> lanes_list t' ! nat (lane + count)
                         = lanes_list t ! nat (lane + count) @ [veh]
                     \<and> (\<forall>k. k \<noteq> nat lane \<and> k \<noteq> nat (lane + count)
                           \<longrightarrow> lanes_list t' ! k = lanes_list t ! k)
                     \<and> length (lanes_list t') = length (lanes_list t)
                     \<and> heap t' = heap t)))"
proof -
  from assms(2,3) have src: "py_pos (length (lanes_list t)) lane = Inr (nat lane)"
    by (simp add: py_pos_in_range lanes_count_def)
  have out: "switch_lane t lane pos count = Inl AssertionError"
    if "\<not> (0 \<le> lane + count \<and> lane + count < lanes_count t)"
    using that by (simp add: switch_lane_def Let_def)
  have empty: "switch_lane t lane pos count = Inr t"
    if "0 \<le> lane + count \<and> lane + count < lanes_count t" "lanes_list t ! nat lane = []"
    using that assms(1) by (simp add: switch_lane_def Let_def src)
  have missing: "switch_lane t lane pos count = Inl ValueError"
    if "0 \<le> lane + count \<and> lane + count < lanes_count t" "lanes_list t ! nat lane \<noteq> []"
      "\<forall>veh\<in>set (lanes_list t ! nat lane). position (heap t veh) \<noteq> pos"
  proof -
    from that(3) have "find (\<lambda>veh. position (heap t veh) = pos) (lanes_list t ! nat lane) = None"
      by (simp add: find_None_iff)
    with that(1,2) assms(1) show ?thesis by (simp add: switch_lane_def Let_def src)
  qed
  have found: "\<exists>t'. switch_lane t lane pos count = Inr t'
                     \<and> lanes_list t' ! nat lane = remove1 veh (lanes_list t ! nat lane)
                     \<and> lanes_list t' ! nat (lane + count)
                         = lanes_list t ! nat (lane + count) @ [veh]
                     \<and> (\<forall>k. k \<noteq> nat lane \<and> k \<noteq> nat (lane + count)
                           \<longrightarrow> lanes_list t' ! k = lanes_list t ! k)
                     \<and> length (lanes_list t') = length (lanes_list t)
                     \<and> heap t' = heap t"
    if r: "0 \<le> lane + count \<and> lane + count < lanes_count t"
      and f: "find (\<lambda>veh. position (heap t veh) = pos) (lanes_list t ! nat lane) = Some veh"
    for veh
  proof -
    from f have ne: "lanes_list t ! nat lane \<noteq> []" by auto
    from assms(1,2) r have d: "nat (lane + count) \<noteq> nat lane" by auto
    from r have dl: "nat (lane + count) < length (lanes_list t)"
      by (simp add: lanes_count_def nat_less_iff)
    from assms(2,3) have sl: "nat lane < length (lanes_list t)"
      by (simp add: lanes_count_def nat_less_iff)
    from r f ne assms(1) have "switch_lane t lane pos count =
        Inr (t\<lparr>lanes_list := ((lanes_list t)[nat lane := remove1 veh (lanes_list t ! nat lane)])
                 [nat (lane + count) := lanes_list t ! nat (lane + count) @ [veh]]\<rparr>)"
      using d by (simp add: switch_lane_def Let_def src)
    with d dl sl show ?thesis by (simp add: nth_list_update)
  qed
  from out empty missing found show ?thesis by blast
qed

theorem switch_lane_cases_witness:
  "\<exists>t'. switch_lane ((Track_init 2 2000 1 False 1 0.5 two_cars)\<lparr>lanes_list := [[0], []]\<rparr>) 0 100 1
          = Inr t'
       \<and> lanes_list t' ! 0 = [] \<and> lanes_list t' ! 1 = [0]"
proof -
  let ?t = "(Track_init 2 2000 1 False 1 0.5 two_cars)\<lparr>lanes_list := [[0], []]\<rparr>"
  have f: "find (\<lambda>veh. position (heap ?t veh) = 100) (lanes_list ?t ! nat 0) = Some 0"
    by (simp add: Track_init_def two_cars_def VehicleAgent_def VehicleAgent_init_def)
  have h: "(1::int) \<noteq> 0" "(0::int) \<le> 0" "0 < lanes_count ?t"
    by (simp_all add: lanes_count_def)
  have r: "0 \<le> (0::int) + 1 \<and> 0 + 1 < lanes_count ?t"
    by (simp add: lanes_count_def)
  from switch_lane_cases [OF h, of 100, THEN conjunct2, rule_format, OF r,
      THEN conjunct2, THEN conjunct2, rule_format, OF f]
  show ?thesis by simp blast
qed

section \<open>The lane changing intent\<close>

lemma can_switch_lane_None [simp]: "can_switch_lane h self None = Inr False"
  by (simp add: can_switch_lane_def)

lemma can_switch_lanes_right:
  assumes "can_switch_lanes h self cars_left cars_right = Inr (cl, True)"
  shows "\<exists>fr k. cars_right = Some (fr, k)"
  using assms
  by (cases cars_right) (auto simp: can_switch_lanes_def split: if_splits sum.splits)

text \<open>
  Claim C7 as stated fails at three inputs. A leader exactly 5 m/s slower, 10 m ahead,
  with the left switch permitted: the claim says move left, the code stays (its test is
  \<^verbatim>\<open>speed_difference < -5.0\<close>). A leader 20 m/s slower and 50 m ahead, the left switch not
  permitted, the right switch permitted into an empty lane: the claim says move right,
  the code stays (\<^verbatim>\<open>else: return 0\<close> under the trigger). Both adjacent lanes empty: the
  code raises \<open>AssertionError\<close> (\<^verbatim>\<open>assert cars_left != cars_right\<close>) and returns no intent.
\<close>

theorem traditional_lane_switch_counterexample:
  "can_switch_lanes boundary_cars 0 (Some (None, None)) None = Inr (True, False)
   \<and> current_speed (boundary_cars 1) \<le> current_speed (boundary_cars 0) - 5
   \<and> flt (pymod (position (boundary_cars 1) - position (boundary_cars 0)) 2000)
          (Fin (5 * current_speed (boundary_cars 0)))
   \<and> traditional_lane_switch boundary_cars 0 (Some 1) (Some (None, None)) None 2000 = Inr 0
   \<and> can_switch_lanes two_cars 0 None (Some (None, None)) = Inr (False, True)
   \<and> traditional_lane_switch two_cars 0 (Some 1) None (Some (None, None)) 2000 = Inr 0
   \<and> traditional_lane_switch two_cars 0 (Some 1) (Some (None, None)) (Some (None, None)) 2000
       = Inl AssertionError"
  by (simp add: traditional_lane_switch_def can_switch_lanes_def can_switch_lane_def
      boundary_cars_def two_cars_def VehicleAgent_def VehicleAgent_init_def pymod_def)

text \<open>
  Claim C7, amended. When the neighbour pairs of the two sides are equal,
  \<open>traditional_lane_switch\<close> raises \<open>AssertionError\<close>. Otherwise, with the permissions that
  \<open>can_switch_lanes\<close> returns: when the leader is more than 5 m/s slower and the gap to it
  (modulo the road length) is below five times the own speed, the intent is move left (1)
  if the left switch is permitted and stay (0) if it is not; when that trigger does not
  fire, the intent is move right (-1) if the right switch is permitted and the right
  lane's leader is absent or more than 200 m ahead (modulo the road length); in every
  other case it is stay (0).
\<close>

theorem traditional_lane_switch_cases:
  "(cars_left = cars_right \<longrightarrow>
      traditional_lane_switch h self car_front cars_left cars_right road_length
        = Inl AssertionError)
   \<and> (\<forall>can_go_left can_go_right.
        can_switch_lanes h self cars_left cars_right = Inr (can_go_left, can_go_right) \<longrightarrow>
        traditional_lane_switch h self (Some f) cars_left cars_right road_length =
          Inr (let slow = current_speed (h f) - current_speed (h self) < - 5;
                   close_by = flt (pymod (position (h f) - position (h self)) road_length)
                                  (Fin (5 * current_speed (h self)));
                   right_far =
                     (case cars_right of
                        None \<Rightarrow> False
                      | Some (None, _) \<Rightarrow> True
                      | Some (Some fr, _) \<Rightarrow>
                          fgt (pymod (position (h fr) - position (h self)) road_length)
                              (Fin 200))
               in if slow \<and> close_by then (if can_go_left then 1 else 0)
                  else if can_go_right \<and> right_far then - 1
                  else 0))"
proof (intro conjI allI impI)
  assume "cars_left = cars_right"
  then show "traditional_lane_switch h self car_front cars_left cars_right road_length
        = Inl AssertionError"
    by (simp add: traditional_lane_switch_def can_switch_lanes_def)
next
  fix can_go_left can_go_right
  assume c: "can_switch_lanes h self cars_left cars_right = Inr (can_go_left, can_go_right)"
  show "traditional_lane_switch h self (Some f) cars_left cars_right road_length =
          Inr (let slow = current_speed (h f) - current_speed (h self) < - 5;
                   close_by = flt (pymod (position (h f) - position (h self)) road_length)
                                  (Fin (5 * current_speed (h self)));
                   right_far =
                     (case cars_right of
                        None \<Rightarrow> False
                      | Some (None, _) \<Rightarrow> True
                      | Some (Some fr, _) \<Rightarrow>
                          fgt (pymod (position (h fr) - position (h self)) road_length)
                              (Fin 200))
               in if slow \<and> close_by then (if can_go_left then 1 else 0)
                  else if can_go_right \<and> right_far then - 1
                  else 0)"
  proof (cases can_go_right)
    case False
    with c show ?thesis
      by (simp add: traditional_lane_switch_def Let_def mult.commute)
  next
    case True
    with c have "can_switch_lanes h self cars_left cars_right = Inr (can_go_left, True)"
      by simp
    then obtain fr k where "cars_right = Some (fr, k)"
      using can_switch_lanes_right by blast
    with c True show ?thesis
      by (cases fr) (simp_all add: traditional_lane_switch_def Let_def mult.commute)
  qed
qed

theorem traditional_lane_switch_cases_witness:
  "traditional_lane_switch two_cars 0 (Some 1) (Some (None, None)) None 2000 = Inr 1"
proof -
  have c: "can_switch_lanes two_cars 0 (Some (None, None)) None = Inr (True, False)"
    by (simp add: can_switch_lanes_def can_switch_lane_def)
  note traditional_lane_switch_cases [where h = two_cars and self = 0 and f = 1
      and cars_left = "Some (None, None)" and cars_right = None and road_length = 2000,
      THEN conjunct2, rule_format, OF c]
  then show ?thesis
    by (simp add: two_cars_def VehicleAgent_def VehicleAgent_init_def pymod_def)
qed

section \<open>A vehicle alone in its lane\<close>

lemma calculate_next_state_decision:
  "fst (calculate_next_state v gap vL aL d m ma sp g) =
     (compute_decision v gap vL aL)
       \<lparr>next_speed := next_speed (fst (calculate_next_state v gap vL aL d m ma sp g))\<rparr>"
  by (cases m; cases "rand g") (simp_all add: calculate_next_state_def Let_def)

lemma calculate_next_state_acceleration:
  "acceleration (fst (calculate_next_state v gap vL aL d m ma sp g))
     = acceleration (compute_decision v gap vL aL)"
  using arg_cong [OF calculate_next_state_decision [of v gap vL aL d m ma sp g], of acceleration]
  by simp

lemma sort_lane_facts:
  "heap (sort_lane t j) = heap t"
  "length (lanes_list (sort_lane t j)) = length (lanes_list t)"
  "k \<noteq> j \<Longrightarrow> lanes_list (sort_lane t j) ! k = lanes_list t ! k"
  "j < length (lanes_list t) \<Longrightarrow> set (lanes_list (sort_lane t j) ! j) = set (lanes_list t ! j)"
  by (simp_all add: sort_lane_def)

lemma sort_lane_single:
  assumes "lanes_list t ! j = [r]"
  shows "lanes_list (sort_lane t j) ! j = [r]"
proof (cases "j < length (lanes_list t)")
  case True
  with assms show ?thesis by (simp add: sort_lane_def)
next
  case False
  with assms show ?thesis by (simp add: sort_lane_def list_update_beyond)
qed

lemma car_in_front_nonempty:
  assumes "j < length (lanes_list t)" and "lanes_list t ! j \<noteq> []"
  shows "\<exists>l. car_in_front t (int j) p = Inr (Some l)"
  using assms by (simp add: car_in_front_def get_lane_def split: option.split)

lemma next_state_vehicle_returns:
  assumes "j < length (lanes_list t)" and "lanes_list t ! j \<noteq> []"
  shows "\<exists>v' g'. next_state_vehicle t j m v g = Inr (t\<lparr>heap := (heap t)(v := v')\<rparr>, g')"
proof -
  from car_in_front_nonempty [OF assms] obtain l where
    "car_in_front t (int j) (position (heap t v)) = Inr (Some l)" by blast
  then show ?thesis
    by (auto simp: next_state_vehicle_def Let_def split: prod.split)
qed

lemma next_state_vehicle_alone:
  assumes "i < length (lanes_list t)" and "lanes_list t ! i = [r]"
  shows "next_state_vehicle t i m r g =
           (let (v', g') = calculate_next_state (heap t r) PInf PInf PInf
                             (dt t) m (max_accel t) (speed_push t) g
            in Inr (t\<lparr>heap := (heap t)(r := v')\<rparr>, g'))"
proof -
  from assms have "car_in_front t (int i) (position (heap t r)) = Inr (Some r)"
    by (simp add: car_in_front_def get_lane_def)
  then show ?thesis by (simp add: next_state_vehicle_def)
qed

lemma next_state_vehicles_returns:
  assumes "j < length (lanes_list t)" and "vs \<noteq> [] \<longrightarrow> lanes_list t ! j \<noteq> []"
  shows "\<exists>t' g'. next_state_vehicles t j m vs g = Inr (t', g')
           \<and> lanes_list t' = lanes_list t
           \<and> (\<forall>x. x \<notin> set vs \<longrightarrow> heap t' x = heap t x)"
  using assms
proof (induction vs arbitrary: t g)
  case Nil
  then show ?case by simp
next
  case (Cons v vs)
  then have ne: "lanes_list t ! j \<noteq> []" by simp
  from next_state_vehicle_returns [OF Cons.prems(1) ne] obtain v' g1 where
    s: "next_state_vehicle t j m v g = Inr (t\<lparr>heap := (heap t)(v := v')\<rparr>, g1)" by blast
  let ?u = "t\<lparr>heap := (heap t)(v := v')\<rparr>"
  from Cons.prems(1) ne have "j < length (lanes_list ?u)" "vs \<noteq> [] \<longrightarrow> lanes_list ?u ! j \<noteq> []"
    by simp_all
  from Cons.IH [OF this, of g1] obtain t' g' where
    r: "next_state_vehicles ?u j m vs g1 = Inr (t', g')" "lanes_list t' = lanes_list ?u"
      "\<forall>x. x \<notin> set vs \<longrightarrow> heap t' x = heap ?u x"
    by blast
  from s r show ?case by simp
qed

lemma next_state_lanes_returns:
  assumes "\<forall>j\<in>set js. j < length (lanes_list t)"
  shows "\<exists>t' g'. next_state_lanes t js g = Inr (t', g')
           \<and> length (lanes_list t') = length (lanes_list t)
           \<and> (\<forall>k. k \<notin> set js \<longrightarrow> lanes_list t' ! k = lanes_list t ! k)
           \<and> (\<forall>k<length (lanes_list t). set (lanes_list t' ! k) = set (lanes_list t ! k))
           \<and> (\<forall>x. (\<forall>j\<in>set js. x \<notin> set (lanes_list t ! j)) \<longrightarrow> heap t' x = heap t x)"
  using assms
proof (induction js arbitrary: t g)
  case Nil
  then show ?case by simp
next
  case (Cons j rest)
  let ?t1 = "sort_lane t j"
  let ?lane = "lanes_list ?t1 ! j"
  from Cons.prems have j: "j < length (lanes_list t)" by simp
  then have j1: "j < length (lanes_list ?t1)" by (simp add: sort_lane_facts)
  from next_state_vehicles_returns [OF j1, of ?lane "mean_speed_of ?t1 ?lane" g]
  obtain u g1 where
    u: "next_state_vehicles ?t1 j (mean_speed_of ?t1 ?lane) ?lane g = Inr (u, g1)"
      "lanes_list u = lanes_list ?t1" "\<forall>x. x \<notin> set ?lane \<longrightarrow> heap u x = heap ?t1 x"
    by blast
  from Cons.prems u(2) have "\<forall>j'\<in>set rest. j' < length (lanes_list u)"
    by (simp add: sort_lane_facts)
  from Cons.IH [OF this, of g1] obtain t' g' where
    r: "next_state_lanes u rest g1 = Inr (t', g')"
      "length (lanes_list t') = length (lanes_list u)"
      "\<forall>k. k \<notin> set rest \<longrightarrow> lanes_list t' ! k = lanes_list u ! k"
      "\<forall>k<length (lanes_list u). set (lanes_list t' ! k) = set (lanes_list u ! k)"
      "\<forall>x. (\<forall>j'\<in>set rest. x \<notin> set (lanes_list u ! j')) \<longrightarrow> heap t' x = heap u x"
    by blast
  have sets: "set (lanes_list u ! k) = set (lanes_list t ! k)" if "k < length (lanes_list t)" for k
    using that u(2) by (cases "k = j") (simp_all add: sort_lane_facts)
  have run: "next_state_lanes t (j # rest) g = Inr (t', g')"
    using u(1) r(1) by (simp add: Let_def)
  have len: "length (lanes_list t') = length (lanes_list t)"
    using r(2) u(2) by (simp add: sort_lane_facts)
  have same: "lanes_list t' ! k = lanes_list t ! k" if "k \<notin> set (j # rest)" for k
    using that r(3) u(2) by (simp add: sort_lane_facts)
  have sets': "set (lanes_list t' ! k) = set (lanes_list t ! k)" if "k < length (lanes_list t)" for k
    using that r(4) u(2) sets by (simp add: sort_lane_facts)
  have heap': "heap t' x = heap t x" if x: "\<forall>j'\<in>set (j # rest). x \<notin> set (lanes_list t ! j')" for x
  proof -
    from x j have "x \<notin> set ?lane" by (simp add: sort_lane_facts)
    with u(3) have a: "heap u x = heap t x" by (simp add: sort_lane_facts)
    from x Cons.prems sets have "\<forall>j'\<in>set rest. x \<notin> set (lanes_list u ! j')" by simp
    with r(5) a show ?thesis by simp
  qed
  from run len same sets' heap' show ?case by blast
qed

lemma lone_lane_pass:
  assumes "distinct js" and "\<forall>j\<in>set js. j < length (lanes_list t)" and "i \<in> set js"
    and "lanes_list t ! i = [r]" and "\<forall>j\<in>set js. j \<noteq> i \<longrightarrow> r \<notin> set (lanes_list t ! j)"
  shows "\<exists>t' g'. next_state_lanes t js g = Inr (t', g')
           \<and> acceleration (heap t' r) = acceleration (compute_decision (heap t r) PInf PInf PInf)"
  using assms
proof (induction js arbitrary: t g)
  case Nil
  then show ?case by simp
next
  case (Cons j rest)
  let ?t1 = "sort_lane t j"
  let ?lane = "lanes_list ?t1 ! j"
  from Cons.prems have j: "j < length (lanes_list t)" and i: "i < length (lanes_list t)"
    by auto
  have j1: "j < length (lanes_list ?t1)" using j by (simp add: sort_lane_facts)
  show ?case
  proof (cases "j = i")
    case True
    from Cons.prems(4) True have lane: "?lane = [r]" by (simp add: sort_lane_single)
    obtain v' g1 where
      c: "calculate_next_state (heap t r) PInf PInf PInf (dt ?t1) (mean_speed_of ?t1 [r])
            (max_accel ?t1) (speed_push ?t1) g = (v', g1)"
      by (cases "calculate_next_state (heap t r) PInf PInf PInf (dt ?t1) (mean_speed_of ?t1 [r])
            (max_accel ?t1) (speed_push ?t1) g")
    let ?u = "?t1\<lparr>heap := (heap ?t1)(r := v')\<rparr>"
    from next_state_vehicle_alone [OF j1 lane, of "mean_speed_of ?t1 [r]" g] c
    have s: "next_state_vehicle ?t1 j (mean_speed_of ?t1 [r]) r g = Inr (?u, g1)"
      by (simp add: sort_lane_facts)
    have acc: "acceleration v' = acceleration (compute_decision (heap t r) PInf PInf PInf)"
      using calculate_next_state_acceleration [of "heap t r" PInf PInf PInf "dt ?t1"
          "mean_speed_of ?t1 [r]" "max_accel ?t1" "speed_push ?t1" g] c
      by simp
    from s lane have v: "next_state_vehicles ?t1 j (mean_speed_of ?t1 ?lane) ?lane g = Inr (?u, g1)"
      by simp
    from Cons.prems(2) have "\<forall>j'\<in>set rest. j' < length (lanes_list ?u)"
      by (simp add: sort_lane_facts)
    from next_state_lanes_returns [OF this, of g1] obtain t' g' where
      r: "next_state_lanes ?u rest g1 = Inr (t', g')"
        "\<forall>x. (\<forall>j'\<in>set rest. x \<notin> set (lanes_list ?u ! j')) \<longrightarrow> heap t' x = heap ?u x"
      by blast
    have "\<forall>j'\<in>set rest. r \<notin> set (lanes_list ?u ! j')"
    proof
      fix j' assume j': "j' \<in> set rest"
      with Cons.prems(1) True have "j' \<noteq> i" "j' \<noteq> j" by auto
      with Cons.prems(5) j' show "r \<notin> set (lanes_list ?u ! j')"
        by (simp add: sort_lane_facts)
    qed
    with r(2) have "heap t' r = heap ?u r" by blast
    with acc have "acceleration (heap t' r)
        = acceleration (compute_decision (heap t r) PInf PInf PInf)" by simp
    moreover from v r(1) have "next_state_lanes t (j # rest) g = Inr (t', g')"
      by (simp add: Let_def)
    ultimately show ?thesis by blast
  next
    case False
    with Cons.prems(3) have irest: "i \<in> set rest" by simp
    from next_state_vehicles_returns [OF j1, of ?lane "mean_speed_of ?t1 ?lane" g]
    obtain u g1 where
      u: "next_state_vehicles ?t1 j (mean_speed_of ?t1 ?lane) ?lane g = Inr (u, g1)"
        "lanes_list u = lanes_list ?t1" "\<forall>x. x \<notin> set ?lane \<longrightarrow> heap u x = heap ?t1 x"
      by blast
    from Cons.prems(5) False j have "r \<notin> set ?lane" by (simp add: sort_lane_facts)
    with u(3) have hr: "heap u r = heap t r" by (simp add: sort_lane_facts)
    have p1: "distinct rest" using Cons.prems(1) by simp
    have p2: "\<forall>j'\<in>set rest. j' < length (lanes_list u)"
      using Cons.prems(2) u(2) by (simp add: sort_lane_facts)
    have p4: "lanes_list u ! i = [r]"
      using Cons.prems(4) False u(2) by (simp add: sort_lane_facts)
    have p5: "\<forall>j'\<in>set rest. j' \<noteq> i \<longrightarrow> r \<notin> set (lanes_list u ! j')"
    proof (intro ballI impI)
      fix j' assume j': "j' \<in> set rest" "j' \<noteq> i"
      with Cons.prems(1) have "j' \<noteq> j" by auto
      with Cons.prems(5) j' u(2) show "r \<notin> set (lanes_list u ! j')"
        by (simp add: sort_lane_facts)
    qed
    from Cons.IH [OF p1 p2 irest p4 p5, of g1] obtain t' g' where
      "next_state_lanes u rest g1 = Inr (t', g')"
      "acceleration (heap t' r) = acceleration (compute_decision (heap u r) PInf PInf PInf)"
      by blast
    with u(1) hr show ?thesis by (simp add: Let_def)
  qed
qed

text \<open>
  Claim C8. In a lane that holds exactly one vehicle, \<open>car_in_front\<close> at that vehicle's
  position returns the vehicle itself, and the body of the decision pass calls the
  vehicle's \<open>calculate_next_state\<close> with infinite gap, leader speed and leader
  acceleration. That call hands these arguments to \<open>compute_decision\<close>: the vehicle it
  returns is the one \<open>compute_decision\<close> returns, with the staged speed added; and with
  these arguments \<open>compute_decision\<close> takes the far-field branch: accelerate below the
  desired speed, cruise at it, decelerate above it. So does the whole pass: on a track of
  that one lane its result is given in full, and on any track where the vehicle is in
  no other lane the pass returns and leaves in the vehicle's \<open>acceleration\<close> the free-flow
  decision for its speed at the start of the pass.
\<close>

theorem lone_vehicle_free_flow:
  assumes "i < length (lanes_list t)" and "lanes_list t ! i = [r]"
  shows "car_in_front t (int i) (position (heap t r)) = Inr (Some r)
       \<and> next_state_vehicle t i m r g =
           (let (v', g') = calculate_next_state (heap t r) PInf PInf PInf
                             (dt t) m (max_accel t) (speed_push t) g
            in Inr (t\<lparr>heap := (heap t)(r := v')\<rparr>, g'))
       \<and> fst (calculate_next_state (heap t r) PInf PInf PInf
                 (dt t) m (max_accel t) (speed_push t) g) =
           (compute_decision (heap t r) PInf PInf PInf)
             \<lparr>next_speed := next_speed (fst (calculate_next_state (heap t r) PInf PInf PInf
                                              (dt t) m (max_accel t) (speed_push t) g))\<rparr>
       \<and> track_calculate_next_state (t\<lparr>lanes_list := [[r]]\<rparr>) g =
           (let t1 = t\<lparr>lanes_list := [[r]]\<rparr>;
                (v', g') = calculate_next_state (heap t r) PInf PInf PInf
                             (dt t) (mean_speed_of t1 [r]) (max_accel t) (speed_push t) g
            in Inr (t1\<lparr>heap := (heap t)(r := v')\<rparr>, g'))
       \<and> compute_decision (heap t r) PInf PInf PInf =
           (heap t r)\<lparr>acceleration :=
              (if current_speed (heap t r) < desired_speed (heap t r)
                 then Fin (acceleration_rate (current_speed (heap t r)))
               else if current_speed (heap t r) = desired_speed (heap t r) then Fin 0
               else decceleration_rate (heap t r) (current_speed (heap t r)) PInf PInf PInf
                      (current_speed (heap t r) * TP (heap t r)))\<rparr>
       \<and> ((\<forall>j<length (lanes_list t). j \<noteq> i \<longrightarrow> r \<notin> set (lanes_list t ! j)) \<longrightarrow>
            (\<exists>t' g'. track_calculate_next_state t g = Inr (t', g')
               \<and> acceleration (heap t' r) =
                   (if current_speed (heap t r) < desired_speed (heap t r)
                      then Fin (acceleration_rate (current_speed (heap t r)))
                    else if current_speed (heap t r) = desired_speed (heap t r) then Fin 0
                    else Fin (min ((current_speed (heap t r) - desired_speed (heap t r)) / 3)
                                  (a_normal (heap t r))))))"
proof -
  let ?c = "\<lambda>m. calculate_next_state (heap t r) PInf PInf PInf (dt t) m (max_accel t) (speed_push t) g"
  from assms have front: "car_in_front t (int i) (position (heap t r)) = Inr (Some r)"
    by (simp add: car_in_front_def get_lane_def)
  have body: "next_state_vehicle t i m r g =
           (let (v', g') = ?c m in Inr (t\<lparr>heap := (heap t)(r := v')\<rparr>, g'))"
    by (rule next_state_vehicle_alone [OF assms])
  have link: "fst (?c m) = (compute_decision (heap t r) PInf PInf PInf)
                 \<lparr>next_speed := next_speed (fst (?c m))\<rparr>"
    by (rule calculate_next_state_decision)
  let ?t1 = "t\<lparr>lanes_list := [[r]]\<rparr>"
  have front1: "car_in_front ?t1 (int 0) (position (heap ?t1 r)) = Inr (Some r)"
    by (simp add: car_in_front_def get_lane_def py_pos_def)
  have sorted1: "sort_lane ?t1 0 = ?t1"
    by (simp add: sort_lane_def)
  obtain v' g' where c: "?c (mean_speed_of ?t1 [r]) = (v', g')"
    by (cases "?c (mean_speed_of ?t1 [r])")
  have pass1: "track_calculate_next_state ?t1 g =
           (let t1 = ?t1; (v', g') = ?c (mean_speed_of t1 [r])
            in Inr (t1\<lparr>heap := (heap t)(r := v')\<rparr>, g'))"
    using front1
    by (simp add: track_calculate_next_state_def sorted1 next_state_vehicle_def c)
  have decision: "compute_decision (heap t r) PInf PInf PInf =
           (heap t r)\<lparr>acceleration :=
              (if current_speed (heap t r) < desired_speed (heap t r)
                 then Fin (acceleration_rate (current_speed (heap t r)))
               else if current_speed (heap t r) = desired_speed (heap t r) then Fin 0
               else decceleration_rate (heap t r) (current_speed (heap t r)) PInf PInf PInf
                      (current_speed (heap t r) * TP (heap t r)))\<rparr>"
    by (simp add: compute_decision_def Let_def)
  have free: "acceleration (compute_decision (heap t r) PInf PInf PInf) =
                   (if current_speed (heap t r) < desired_speed (heap t r)
                      then Fin (acceleration_rate (current_speed (heap t r)))
                    else if current_speed (heap t r) = desired_speed (heap t r) then Fin 0
                    else Fin (min ((current_speed (heap t r) - desired_speed (heap t r)) / 3)
                                  (a_normal (heap t r))))"
    by (simp add: compute_decision_def decceleration_rate_def Let_def)
  have pass: "\<exists>t' g'. track_calculate_next_state t g = Inr (t', g')
               \<and> acceleration (heap t' r) =
                   (if current_speed (heap t r) < desired_speed (heap t r)
                      then Fin (acceleration_rate (current_speed (heap t r)))
                    else if current_speed (heap t r) = desired_speed (heap t r) then Fin 0
                    else Fin (min ((current_speed (heap t r) - desired_speed (heap t r)) / 3)
                                  (a_normal (heap t r))))"
    if other: "\<forall>j<length (lanes_list t). j \<noteq> i \<longrightarrow> r \<notin> set (lanes_list t ! j)"
  proof -
    have "distinct [0..<length (lanes_list t)]"
      "\<forall>j\<in>set [0..<length (lanes_list t)]. j < length (lanes_list t)"
      "i \<in> set [0..<length (lanes_list t)]"
      "\<forall>j\<in>set [0..<length (lanes_list t)]. j \<noteq> i \<longrightarrow> r \<notin> set (lanes_list t ! j)"
      using assms(1) other by simp_all
    from lone_lane_pass [OF this(1,2,3) assms(2) this(4), of g] show ?thesis
      unfolding track_calculate_next_state_def free .
  qed
  from front body link pass1 decision pass show ?thesis by blast
qed

theorem lone_vehicle_free_flow_witness:
  "car_in_front ((Track_init 2 2000 1 False 1 0.5 two_cars)\<lparr>lanes_list := [[1], [0]]\<rparr>) 0 150
     = Inr (Some 1)
   \<and> (\<exists>t' g'. track_calculate_next_state
                 ((Track_init 2 2000 1 False 1 0.5 two_cars)\<lparr>lanes_list := [[1], [0]]\<rparr>)
                 (\<lambda>_. 1 / 2) = Inr (t', g')
        \<and> acceleration (heap t' 1) = Fin 1.1)"
proof -
  let ?t = "(Track_init 2 2000 1 False 1 0.5 two_cars)\<lparr>lanes_list := [[1], [0]]\<rparr>"
  have h: "0 < length (lanes_list ?t)" "lanes_list ?t ! 0 = [1]"
    by simp_all
  have o: "\<forall>j<length (lanes_list ?t). j \<noteq> 0 \<longrightarrow> 1 \<notin> set (lanes_list ?t ! j)"
    by (simp add: less_Suc_eq)
  have p: "position (heap ?t 1) = 150" "current_speed (heap ?t 1) = 10"
    "desired_speed (heap ?t 1) = 30"
    by (simp_all add: Track_init_def two_cars_def VehicleAgent_def VehicleAgent_init_def)
  note w = lone_vehicle_free_flow [OF h, of None "\<lambda>_. 1 / 2"]
  from w have "car_in_front ?t (int 0) (position (heap ?t 1)) = Inr (Some 1)" by blast
  moreover have "position (heap ?t 1) = 150" by (rule p)
  ultimately have a: "car_in_front ?t 0 150 = Inr (Some 1)" by (simp only: int_ops)
  from w o have "\<exists>t' g'. track_calculate_next_state ?t (\<lambda>_. 1 / 2) = Inr (t', g')
               \<and> acceleration (heap t' 1) =
                   (if current_speed (heap ?t 1) < desired_speed (heap ?t 1)
                      then Fin (acceleration_rate (current_speed (heap ?t 1)))
                    else if current_speed (heap ?t 1) = desired_speed (heap ?t 1) then Fin 0
                    else Fin (min ((current_speed (heap ?t 1) - desired_speed (heap ?t 1)) / 3)
                                  (a_normal (heap ?t 1))))"
    by blast
  then have "\<exists>t' g'. track_calculate_next_state ?t (\<lambda>_. 1 / 2) = Inr (t', g')
        \<and> acceleration (heap t' 1) = Fin 1.1"
    unfolding p by (simp add: acceleration_rate_def)
  with a show ?thesis by blast
qed

section \<open>Lane changes within one call\<close>

lemma same_vehicles_refl [simp]: "same_vehicles t t"
  by (simp add: same_vehicles_def)

lemma same_vehicles_trans: "same_vehicles t u \<Longrightarrow> same_vehicles u w \<Longrightarrow> same_vehicles t w"
  by (simp add: same_vehicles_def)

lemma concat_update:
  assumes "j < length ls"
  shows "concat (ls[j := x]) = concat (take j ls) @ x @ concat (drop (Suc j) ls)"
    and "concat ls = concat (take j ls) @ ls ! j @ concat (drop (Suc j) ls)"
proof -
  from assms show "concat (ls[j := x]) = concat (take j ls) @ x @ concat (drop (Suc j) ls)"
    by (simp add: upd_conv_take_nth_drop)
  from assms have "ls = take j ls @ ls ! j # drop (Suc j) ls"
    by (simp add: id_take_nth_drop)
  then have "concat ls = concat (take j ls @ ls ! j # drop (Suc j) ls)" by simp
  then show "concat ls = concat (take j ls) @ ls ! j @ concat (drop (Suc j) ls)" by simp
qed

lemma length_concat_update:
  assumes "j < length ls"
  shows "length (concat (ls[j := x])) + length (ls ! j) = length (concat ls) + length x"
  using concat_update(1) [OF assms, of x] concat_update(2) [OF assms] by simp

lemma in_concat_nth: "x \<in> set (concat ls) \<longleftrightarrow> (\<exists>i<length ls. x \<in> set (ls ! i))"
proof -
  have "set ls = {ls ! i | i. i < length ls}" by (rule set_conv_nth)
  then show ?thesis by (simp only: set_concat) blast
qed

text \<open>Taking a member out of one lane and appending it to another lane.\<close>

lemma move_same:
  assumes j: "j < length ls" and d: "d < length ls" and ne: "d \<noteq> j" and v: "veh \<in> set (ls ! j)"
  defines "ls1 \<equiv> ls[j := remove1 veh (ls ! j)]"
  defines "ls2 \<equiv> ls1[d := ls1 ! d @ [veh]]"
  shows "set (concat ls2) = set (concat ls)" and "length (concat ls2) = length (concat ls)"
    and "length ls2 = length ls"
proof -
  have d1: "d < length ls1" "ls1 ! d = ls ! d" using d ne by (simp_all add: ls1_def)
  show len: "length ls2 = length ls" by (simp add: ls2_def ls1_def)
  have nth2: "ls2 ! i = (if i = d then ls ! d @ [veh]
                         else if i = j then remove1 veh (ls ! j) else ls ! i)"
    if "i < length ls" for i
    using that d ne by (simp add: ls2_def ls1_def nth_list_update)
  have sub: "set (ls2 ! i) \<subseteq> set (concat ls)" if "i < length ls" for i
  proof -
    have "set (ls ! i) \<subseteq> set (concat ls)" "set (ls ! j) \<subseteq> set (concat ls)"
      using that j by (auto simp: in_concat_nth simp del: set_concat)
    moreover have "set (remove1 veh (ls ! j)) \<subseteq> set (ls ! j)" by (rule set_remove1_subset)
    ultimately show ?thesis using v by (auto simp: nth2 [OF that] split: if_splits)
  qed
  have sup: "set (ls ! i) \<subseteq> set (concat ls2)" if "i < length ls" for i
  proof
    fix x assume x: "x \<in> set (ls ! i)"
    have in2: "set (ls2 ! k) \<subseteq> set (concat ls2)" if "k < length ls" for k
      using that len by (auto simp: in_concat_nth simp del: set_concat)
    show "x \<in> set (concat ls2)"
    proof (cases "i = d")
      case True
      with x in2 [OF d] nth2 [OF d] show ?thesis by auto
    next
      case False
      show ?thesis
      proof (cases "i = j")
        case True
        show ?thesis
        proof (cases "x = veh")
          case True
          with in2 [OF d] nth2 [OF d] show ?thesis by auto
        next
          case False
          with x \<open>i = j\<close> have "x \<in> set (remove1 veh (ls ! j))" by simp
          with in2 [OF j] nth2 [OF j] ne show ?thesis by auto
        qed
      next
        case False
        with x \<open>i \<noteq> d\<close> in2 [OF that] nth2 [OF that] show ?thesis by auto
      qed
    qed
  qed
  show "set (concat ls2) = set (concat ls)"
  proof
    show "set (concat ls2) \<subseteq> set (concat ls)"
    proof
      fix x assume "x \<in> set (concat ls2)"
      then obtain i where "i < length ls2" "x \<in> set (ls2 ! i)"
        unfolding in_concat_nth by blast
      with sub [of i] len show "x \<in> set (concat ls)" by auto
    qed
    show "set (concat ls) \<subseteq> set (concat ls2)"
    proof
      fix x assume "x \<in> set (concat ls)"
      then obtain i where "i < length ls" "x \<in> set (ls ! i)"
        unfolding in_concat_nth by blast
      with sup [of i] show "x \<in> set (concat ls2)" by auto
    qed
  qed
  have l1: "length (concat ls1) + length (ls ! j) = length (concat ls) + length (remove1 veh (ls ! j))"
    unfolding ls1_def by (rule length_concat_update [OF j])
  have l2: "length (concat ls2) + length (ls ! d) = length (concat ls1) + length (ls ! d @ [veh])"
    unfolding ls2_def using length_concat_update [OF d1(1), of "ls1 ! d @ [veh]"] d1(2) by simp
  from v have "0 < length (ls ! j)" by (rule length_pos_if_in_set)
  with v have "length (remove1 veh (ls ! j)) + 1 = length (ls ! j)"
    by (simp add: length_remove1)
  with l1 l2 show "length (concat ls2) = length (concat ls)" by simp
qed

lemma switch_lane_result:
  assumes "switch_lane t (int i) pos count = Inr t'"
  shows "t' = t \<or>
     (\<exists>veh. count \<noteq> 0 \<and> i < length (lanes_list t) \<and> 0 \<le> int i + count
        \<and> nat (int i + count) < length (lanes_list t) \<and> nat (int i + count) \<noteq> i
        \<and> veh \<in> set (lanes_list t ! i) \<and> position (heap t veh) = pos
        \<and> t' = t\<lparr>lanes_list :=
                   ((lanes_list t)[i := remove1 veh (lanes_list t ! i)])
                     [nat (int i + count) := lanes_list t ! nat (int i + count) @ [veh]]\<rparr>)"
proof (cases "count = 0 \<or> lanes_list t ! i = []")
  case True
  with assms show ?thesis
    by (auto simp: switch_lane_def Let_def split: if_splits sum.splits)
next
  case False
  with assms have r: "0 \<le> int i + count" "int i + count < lanes_count t" "i < length (lanes_list t)"
    by (auto simp: switch_lane_def Let_def split: if_splits)
  with False have d: "nat (int i + count) \<noteq> i" "nat (int i + count) < length (lanes_list t)"
    by (auto simp: lanes_count_def)
  from assms False r obtain veh where
    f: "find (\<lambda>veh. position (heap t veh) = pos) (lanes_list t ! i) = Some veh"
    by (auto simp: switch_lane_def Let_def split: if_splits option.splits)
  then have m: "veh \<in> set (lanes_list t ! i)" "position (heap t veh) = pos"
    by (auto simp: find_Some_iff)
  from assms False r f d have "t' = t\<lparr>lanes_list :=
                   ((lanes_list t)[i := remove1 veh (lanes_list t ! i)])
                     [nat (int i + count) := lanes_list t ! nat (int i + count) @ [veh]]\<rparr>"
    by (auto simp: switch_lane_def Let_def split: if_splits)
  with False r d m show ?thesis by blast
qed

lemma switch_lane_same:
  assumes "switch_lane t (int i) pos count = Inr t'"
  shows "same_vehicles t t'"
  using switch_lane_result [OF assms]
proof
  assume "t' = t" then show ?thesis by simp
next
  assume "\<exists>veh. count \<noteq> 0 \<and> i < length (lanes_list t) \<and> 0 \<le> int i + count
        \<and> nat (int i + count) < length (lanes_list t) \<and> nat (int i + count) \<noteq> i
        \<and> veh \<in> set (lanes_list t ! i) \<and> position (heap t veh) = pos
        \<and> t' = t\<lparr>lanes_list :=
                   ((lanes_list t)[i := remove1 veh (lanes_list t ! i)])
                     [nat (int i + count) := lanes_list t ! nat (int i + count) @ [veh]]\<rparr>"
  then obtain veh where v: "i < length (lanes_list t)"
      "nat (int i + count) < length (lanes_list t)" "nat (int i + count) \<noteq> i"
      "veh \<in> set (lanes_list t ! i)"
    and t': "t' = t\<lparr>lanes_list :=
                   ((lanes_list t)[i := remove1 veh (lanes_list t ! i)])
                     [nat (int i + count) := lanes_list t ! nat (int i + count) @ [veh]]\<rparr>"
    by blast
  from move_same [OF v(1,2,3,4)] v(3) show ?thesis
    by (simp add: same_vehicles_def t')
qed

lemma traditional_lane_switch_range:
  assumes "traditional_lane_switch h self car_front cars_left cars_right road_length = Inr c"
  shows "c = 0 \<or> c = 1 \<or> c = - 1"
proof (cases "can_switch_lanes h self cars_left cars_right")
  case (Inl e)
  with assms show ?thesis by (simp add: traditional_lane_switch_def)
next
  case (Inr p)
  obtain l r where p: "p = (l, r)" by (cases p)
  show ?thesis
  proof (cases car_front)
    case None
    with assms Inr p show ?thesis
      by (simp add: traditional_lane_switch_def split: if_splits)
  next
    case front: (Some f)
    show ?thesis
    proof (cases cars_right)
      case None
      with assms Inr p front show ?thesis
        by (simp add: traditional_lane_switch_def Let_def split: if_splits)
    next
      case right: (Some q)
      obtain fr k where q: "q = (fr, k)" by (cases q)
      show ?thesis
      proof (cases fr)
        case None
        with assms Inr p front right q show ?thesis
          by (simp add: traditional_lane_switch_def Let_def split: if_splits)
      next
        case (Some x)
        with assms Inr p front right q show ?thesis
          by (simp add: traditional_lane_switch_def Let_def split: if_splits)
      qed
    qed
  qed
qed

lemma lane_switches_step_result:
  assumes "lane_switches_step t i k = Inr t'"
  shows "same_vehicles t t'
     \<and> (t' = t \<or>
        (\<exists>veh c. (c = 1 \<or> c = - 1)
           \<and> veh \<in> set (lanes_list t ! i)
           \<and> position (heap t veh) = position (heap t (lanes_list t ! i ! k))
           \<and> lanes_list t' =
               ((lanes_list t)[i := remove1 veh (lanes_list t ! i)])
                 [nat (int i + c) := lanes_list t ! nat (int i + c) @ [veh]]))"
proof -
  let ?pos = "position (heap t (lanes_list t ! i ! k))"
  from assms obtain front where
    f: "car_in_front t (int i) ?pos = Inr front"
    by (cases "car_in_front t (int i) ?pos") (simp_all add: lane_switches_step_def Let_def)
  from assms f obtain sides where
    sd: "closest_cars_sides t (int i) ?pos = Inr sides"
    by (cases "closest_cars_sides t (int i) ?pos") (simp_all add: lane_switches_step_def Let_def)
  obtain left right where lr: "sides = (left, right)" by (cases sides)
  from assms f sd lr obtain c where
    c: "lane_switch (heap t) (lanes_list t ! i ! k) front left right (length_track t) = Inr c"
    by (cases "lane_switch (heap t) (lanes_list t ! i ! k) front left right (length_track t)")
       (simp_all add: lane_switches_step_def Let_def)
  from assms f sd lr c have s: "switch_lane t (int i) ?pos c = Inr t'"
    by (simp add: lane_switches_step_def Let_def)
  from c have range: "c = 0 \<or> c = 1 \<or> c = - 1"
    unfolding lane_switch_def by (rule traditional_lane_switch_range)
  have same: "same_vehicles t t'" by (rule switch_lane_same [OF s])
  from switch_lane_result [OF s] have "t' = t \<or>
        (\<exists>veh c. (c = 1 \<or> c = - 1)
           \<and> veh \<in> set (lanes_list t ! i)
           \<and> position (heap t veh) = ?pos
           \<and> lanes_list t' =
               ((lanes_list t)[i := remove1 veh (lanes_list t ! i)])
                 [nat (int i + c) := lanes_list t ! nat (int i + c) @ [veh]])"
  proof
    assume "t' = t" then show ?thesis by simp
  next
    assume "\<exists>veh. c \<noteq> 0 \<and> i < length (lanes_list t) \<and> 0 \<le> int i + c
        \<and> nat (int i + c) < length (lanes_list t) \<and> nat (int i + c) \<noteq> i
        \<and> veh \<in> set (lanes_list t ! i) \<and> position (heap t veh) = ?pos
        \<and> t' = t\<lparr>lanes_list :=
                   ((lanes_list t)[i := remove1 veh (lanes_list t ! i)])
                     [nat (int i + c) := lanes_list t ! nat (int i + c) @ [veh]]\<rparr>"
    then obtain veh where "c \<noteq> 0" "veh \<in> set (lanes_list t ! i)"
        "position (heap t veh) = ?pos"
        "lanes_list t' = ((lanes_list t)[i := remove1 veh (lanes_list t ! i)])
                     [nat (int i + c) := lanes_list t ! nat (int i + c) @ [veh]]"
      by auto
    moreover with range have "c = 1 \<or> c = - 1" by simp
    ultimately show ?thesis by blast
  qed
  with same show ?thesis by simp
qed

lemma lane_switches_loop_same:
  assumes "lane_switches_loop t i k = Inr t'"
  shows "same_vehicles t t'"
  using assms
proof (induction t i k rule: lane_switches_loop.induct)
  case (1 t i k)
  show ?case
  proof (cases "k < length (lanes_list t ! i)")
    case False
    with "1.prems" show ?thesis by (subst (asm) lane_switches_loop.simps) simp
  next
    case True
    with "1.prems" obtain u where u: "lane_switches_step t i k = Inr u"
      and r: "lane_switches_loop u i (Suc k) = Inr t'"
      by (subst (asm) lane_switches_loop.simps) (auto split: sum.splits)
    from "1.IH" [OF True u r] lane_switches_step_result [OF u] show ?thesis
      by (blast intro: same_vehicles_trans)
  qed
qed

lemma sort_lane_same: "same_vehicles t (sort_lane t i)"
proof (cases "i < length (lanes_list t)")
  case False
  then show ?thesis by (simp add: sort_lane_def same_vehicles_def list_update_beyond)
next
  case True
  let ?x = "sort_key (\<lambda>veh. position (heap t veh)) (lanes_list t ! i)"
  from concat_update(1) [OF True, of ?x] concat_update(2) [OF True]
  show ?thesis by (simp add: sort_lane_def same_vehicles_def)
qed

lemma lane_switches_lanes_same:
  assumes "lane_switches_lanes t lanes = Inr t'"
  shows "same_vehicles t t'"
  using assms
proof (induction lanes arbitrary: t)
  case Nil
  then show ?case by simp
next
  case (Cons i rest)
  then obtain u where u: "lane_switches_loop (sort_lane t i) i 0 = Inr u"
    and r: "lane_switches_lanes u rest = Inr t'"
    by (auto split: sum.splits)
  from sort_lane_same [of t i] lane_switches_loop_same [OF u] Cons.IH [OF r]
  show ?case by (blast intro: same_vehicles_trans)
qed

lemmas track_eval =
  Track_init_def VehicleAgent_def VehicleAgent_init_def
  sort_lane_def lane_switches_step_def lane_switch_def traditional_lane_switch_def
  can_switch_lanes_def can_switch_lane_def closest_cars_sides_def cars_of_lane_def
  car_in_front_def car_in_back_def get_lane_def py_pos_def pymod_def switch_lane_def
  lanes_count_def Let_def

lemma passing_track_run:
  "lane_switches passing_track = Inr (passing_track\<lparr>lanes_list := [[1], [2], [0]]\<rparr>)"
  by (simp add: lane_switches_def lane_switches_loop.simps passing_track_def passing_cars_def
      track_eval upt_rec)

lemma passing_track_snapshot:
  "snapshot_lane_switches passing_track = Inr (passing_track\<lparr>lanes_list := [[1], [2, 0], []]\<rparr>)"
  by (simp add: snapshot_lane_switches_def snapshot_decision_def passing_track_def
      passing_cars_def track_eval upt_rec)

text \<open>
  Claim C4 as stated fails. On the three-lane track of the example, vehicle 0 is moved from
  lane 0 to lane 1 because of its slow leader; lane 1 is visited afterwards with vehicle 0
  in it, where vehicle 2 is now its slow leader, and vehicle 0 is moved again, to lane 2:
  its second decision is computed after the first move, and it changes lane twice in one
  call. The two-phase resolution on the snapshot moves it once, to lane 1.
\<close>

theorem lane_switches_counterexample:
  "lanes_list passing_track = [[0, 1], [2], []]
   \<and> map_sum id lanes_list (lane_switches passing_track) = Inr [[1], [2], [0]]
   \<and> map_sum id lanes_list (snapshot_lane_switches passing_track) = Inr [[1], [2, 0], []]"
  by (simp add: passing_track_run passing_track_snapshot) (simp add: passing_track_def)

lemma lane_switches_step_decided:
  assumes "lane_switches_step t i k = Inr u"
  shows "decided_move t i k u"
proof -
  let ?pos = "position (heap t (lanes_list t ! i ! k))"
  from assms obtain front where
    f: "car_in_front t (int i) ?pos = Inr front"
    by (cases "car_in_front t (int i) ?pos") (simp_all add: lane_switches_step_def Let_def)
  from assms f obtain sides where
    sd: "closest_cars_sides t (int i) ?pos = Inr sides"
    by (cases "closest_cars_sides t (int i) ?pos") (simp_all add: lane_switches_step_def Let_def)
  obtain left right where lr: "sides = (left, right)" by (cases sides)
  from assms f sd lr obtain c where
    c: "lane_switch (heap t) (lanes_list t ! i ! k) front left right (length_track t) = Inr c"
    by (cases "lane_switch (heap t) (lanes_list t ! i ! k) front left right (length_track t)")
       (simp_all add: lane_switches_step_def Let_def)
  from assms f sd lr c have "switch_lane t (int i) ?pos c = Inr u"
    by (simp add: lane_switches_step_def Let_def)
  with f sd [unfolded lr] c show ?thesis by (rule decided_moveI)
qed

lemma decided_lane_switches_step:
  assumes "decided_move t i k u"
  shows "lane_switches_step t i k = Inr u"
  using assms by cases (simp add: lane_switches_step_def Let_def)

lemma lane_switches_loop_scan:
  assumes "lane_switches_loop t i k = Inr t'"
  shows "scan_lane t i k t'"
  using assms
proof (induction t i k rule: lane_switches_loop.induct)
  case (1 t i k)
  show ?case
  proof (cases "k < length (lanes_list t ! i)")
    case False
    with "1.prems" have "t' = t" by (subst (asm) lane_switches_loop.simps) simp
    with False show ?thesis by (simp add: scan_end)
  next
    case True
    with "1.prems" obtain u where u: "lane_switches_step t i k = Inr u"
      and r: "lane_switches_loop u i (Suc k) = Inr t'"
      by (subst (asm) lane_switches_loop.simps) (auto split: sum.splits)
    from "1.IH" [OF True u r] have s: "scan_lane u i (Suc k) t'" .
    from u have d: "decided_move t i k u" by (rule lane_switches_step_decided)
    show ?thesis
    proof (cases "u = t")
      case True
      with d s \<open>k < length (lanes_list t ! i)\<close> show ?thesis by (auto intro: scan_stay)
    next
      case False
      from \<open>k < length (lanes_list t ! i)\<close> d False _ s show ?thesis
        by (rule scan_move) simp
    qed
  qed
qed

lemma lane_switches_lanes_visit:
  assumes "lane_switches_lanes t js = Inr t'"
  shows "visit_lanes t js t'"
  using assms
proof (induction js arbitrary: t)
  case Nil
  then show ?case by (simp add: visit_done)
next
  case (Cons i rest)
  then obtain u where u: "lane_switches_loop (sort_lane t i) i 0 = Inr u"
    and r: "lane_switches_lanes u rest = Inr t'"
    by (auto split: sum.splits)
  from lane_switches_loop_scan [OF u] Cons.IH [OF r] show ?case by (rule visit_lane)
qed

lemma scan_lane_past_end:
  assumes "scan_lane t i k t'" and "\<not> k < length (lanes_list t ! i)"
  shows "t' = t"
  using assms by cases simp_all

lemma scan_lane_visit:
  assumes "scan_lane t i k t'" and "k < length (lanes_list t ! i)"
    and "lane_switches_step t i k = Inr u"
  shows "(u = t \<and> scan_lane t i (Suc k) t')
       \<or> (u \<noteq> t \<and> (scan_lane u i k t' \<or> scan_lane u i (Suc k) t'))"
  using assms(1)
proof cases
  case scan_end
  with assms(2) show ?thesis by simp
next
  case scan_stay
  from decided_lane_switches_step [OF scan_stay(2)] assms(3) have "u = t" by simp
  with scan_stay(3) show ?thesis by simp
next
  case (scan_move u' k')
  from decided_lane_switches_step [OF scan_move(2)] assms(3) have "u' = u" by simp
  with scan_move show ?thesis by auto
qed

lemma visit_lanes_Cons:
  assumes "visit_lanes t (i # rest) t'"
  shows "\<exists>u. scan_lane (sort_lane t i) i 0 u \<and> visit_lanes u rest t'"
  using assms by cases auto

lemma visit_lanes_Nil:
  assumes "visit_lanes t [] t'"
  shows "t' = t"
  using assms by cases auto

lemma passing_track_runs:
  assumes "visit_lanes passing_track [0, 1, 2] t'"
  shows "lanes_list t' = [[1], [2], [0]] \<or> lanes_list t' = [[1, 2], [0], []]"
proof -
  let ?P = passing_track
  let ?M1 = "passing_track\<lparr>lanes_list := [[1], [2, 0], []]\<rparr>"
  let ?M1s = "passing_track\<lparr>lanes_list := [[1], [0, 2], []]\<rparr>"
  let ?M2 = "passing_track\<lparr>lanes_list := [[1], [2], [0]]\<rparr>"
  let ?M3 = "passing_track\<lparr>lanes_list := [[1, 2], [], [0]]\<rparr>"
  let ?M4 = "passing_track\<lparr>lanes_list := [[1, 2], [0], []]\<rparr>"
  note ev = passing_track_def passing_cars_def track_eval
  have s0: "sort_lane ?P 0 = ?P" and l0: "lanes_list ?P ! 0 = [0, 1]"
    and f1: "lane_switches_step ?P 0 0 = Inr ?M1" and n1: "?M1 \<noteq> ?P"
    by (simp_all add: ev)
  have l1: "lanes_list ?M1 ! 0 = [1]" and f2: "lane_switches_step ?M1 0 0 = Inr ?M1"
    by (simp_all add: ev)
  have s1: "sort_lane ?M1 1 = ?M1s" and l1s: "lanes_list ?M1s ! 1 = [0, 2]"
    and f4: "lane_switches_step ?M1s 1 0 = Inr ?M2" and n2: "?M2 \<noteq> ?M1s"
    by (simp_all add: ev)
  have l2: "lanes_list ?M2 ! 1 = [2]" and f5: "lane_switches_step ?M2 1 0 = Inr ?M3"
    and n3: "?M3 \<noteq> ?M2" and l3: "lanes_list ?M3 ! 1 = []"
    by (simp_all add: ev)
  have s2: "sort_lane ?M2 2 = ?M2" and l22: "lanes_list ?M2 ! 2 = [0]"
    and f6: "lane_switches_step ?M2 2 0 = Inr ?M2"
    by (simp_all add: ev)
  have s3: "sort_lane ?M3 2 = ?M3" and l32: "lanes_list ?M3 ! 2 = [0]"
    and f7: "lane_switches_step ?M3 2 0 = Inr ?M4" and n4: "?M4 \<noteq> ?M3"
    and l4: "lanes_list ?M4 ! 2 = []"
    by (simp_all add: ev)
  from visit_lanes_Cons [OF assms] obtain u0 where
    a0: "scan_lane ?P 0 0 u0" and r0: "visit_lanes u0 [1, 2] t'"
    unfolding s0 by blast
  have "u0 = ?M1"
  proof -
    from scan_lane_visit [OF a0 _ f1] n1 have "scan_lane ?M1 0 0 u0 \<or> scan_lane ?M1 0 (Suc 0) u0"
      by (simp add: l0)
    then show ?thesis
    proof
      assume "scan_lane ?M1 0 (Suc 0) u0"
      then show ?thesis by (rule scan_lane_past_end) (simp add: l1)
    next
      assume "scan_lane ?M1 0 0 u0"
      from scan_lane_visit [OF this _ f2] have "scan_lane ?M1 0 (Suc 0) u0"
        by (simp add: l1)
      then show ?thesis by (rule scan_lane_past_end) (simp add: l1)
    qed
  qed
  with r0 have "visit_lanes ?M1 [1, 2] t'" by simp
  from visit_lanes_Cons [OF this] obtain u1 where
    a1: "scan_lane ?M1s 1 0 u1" and r1: "visit_lanes u1 [2] t'"
    unfolding s1 by blast
  have "u1 = ?M2 \<or> u1 = ?M3"
  proof -
    from scan_lane_visit [OF a1 _ f4] n2 have "scan_lane ?M2 1 0 u1 \<or> scan_lane ?M2 1 (Suc 0) u1"
      by (simp add: l1s)
    then show ?thesis
    proof
      assume "scan_lane ?M2 1 (Suc 0) u1"
      then have "u1 = ?M2" by (rule scan_lane_past_end) (simp add: l2)
      then show ?thesis ..
    next
      assume "scan_lane ?M2 1 0 u1"
      from scan_lane_visit [OF this _ f5] n3
      have "scan_lane ?M3 1 0 u1 \<or> scan_lane ?M3 1 (Suc 0) u1"
        by (simp add: l2)
      then have "u1 = ?M3"
        by (rule disjE) (rule scan_lane_past_end, assumption, simp add: l3)+
      then show ?thesis ..
    qed
  qed
  then show ?thesis
  proof
    assume "u1 = ?M2"
    with r1 have "visit_lanes ?M2 [2] t'" by simp
    from visit_lanes_Cons [OF this] obtain u2 where
      a2: "scan_lane ?M2 2 0 u2" and r2: "visit_lanes u2 [] t'"
      unfolding s2 by blast
    from scan_lane_visit [OF a2 _ f6] have "scan_lane ?M2 2 (Suc 0) u2"
      by (simp add: l22)
    then have "u2 = ?M2" by (rule scan_lane_past_end) (simp add: l22)
    with visit_lanes_Nil [OF r2] show ?thesis by simp
  next
    assume "u1 = ?M3"
    with r1 have "visit_lanes ?M3 [2] t'" by simp
    from visit_lanes_Cons [OF this] obtain u2 where
      a2: "scan_lane ?M3 2 0 u2" and r2: "visit_lanes u2 [] t'"
      unfolding s3 by blast
    from scan_lane_visit [OF a2 _ f7] n4
    have "scan_lane ?M4 2 0 u2 \<or> scan_lane ?M4 2 (Suc 0) u2"
      by (simp add: l32)
    then have "u2 = ?M4"
      by (rule disjE) (rule scan_lane_past_end, assumption, simp add: l4)+
    with visit_lanes_Nil [OF r2] show ?thesis by simp
  qed
qed

text \<open>
  Claim C4, amended. A call of \<open>lane_switches\<close> that returns is a sequential resolution:
  the lanes are visited in index order, each lane is sorted when its turn comes and
  scanned from its first vehicle; each visited vehicle's decision is computed on the lane
  collections as they stand at that moment, every move already applied in the call
  included, and its move is applied at once, before the next decision. After a vehicle
  that stays the scan goes on with the next vehicle of the lane; after a move it resumes
  at the same or at the next index; the lane's turn ends when the index has passed the
  end of the lane. Each application leaves the track as it is or moves one vehicle, found
  by the position of the visited one, by exactly one lane. The call changes no vehicle
  and only transfers vehicles between the lanes: the number of lanes, and the set and the
  number of the vehicle entries over all lanes, are the same after the call as before,
  and when no vehicle was entered twice before the call, none is after it.
\<close>

theorem lane_switches_sequential:
  "(\<forall>t'. lane_switches t = Inr t' \<longrightarrow>
       visit_lanes t [0..<length (lanes_list t)] t'
       \<and> heap t' = heap t
       \<and> length (lanes_list t') = length (lanes_list t)
       \<and> set (concat (lanes_list t')) = set (concat (lanes_list t))
       \<and> length (concat (lanes_list t')) = length (concat (lanes_list t))
       \<and> (distinct (concat (lanes_list t)) \<longrightarrow> distinct (concat (lanes_list t'))))
   \<and> (\<forall>i k u. decided_move t i k u \<longrightarrow>
         heap u = heap t
         \<and> (u = t \<or>
            (\<exists>veh c. (c = 1 \<or> c = - 1)
               \<and> veh \<in> set (lanes_list t ! i)
               \<and> position (heap t veh) = position (heap t (lanes_list t ! i ! k))
               \<and> lanes_list u =
                   ((lanes_list t)[i := remove1 veh (lanes_list t ! i)])
                     [nat (int i + c) := lanes_list t ! nat (int i + c) @ [veh]])))"
proof (intro conjI allI impI)
  fix t' assume run: "lane_switches t = Inr t'"
  then show "visit_lanes t [0..<length (lanes_list t)] t'"
    unfolding lane_switches_def by (rule lane_switches_lanes_visit)
  from run have s: "same_vehicles t t'"
    unfolding lane_switches_def by (rule lane_switches_lanes_same)
  then show "heap t' = heap t" "length (lanes_list t') = length (lanes_list t)"
    "set (concat (lanes_list t')) = set (concat (lanes_list t))"
    "length (concat (lanes_list t')) = length (concat (lanes_list t))"
    by (simp_all add: same_vehicles_def)
  assume "distinct (concat (lanes_list t))"
  then have "card (set (concat (lanes_list t))) = length (concat (lanes_list t))"
    by (rule distinct_card)
  with s have "card (set (concat (lanes_list t'))) = length (concat (lanes_list t'))"
    by (simp add: same_vehicles_def)
  then show "distinct (concat (lanes_list t'))" by (rule card_distinct)
next
  fix i k u assume "decided_move t i k u"
  then have "lane_switches_step t i k = Inr u" by (rule decided_lane_switches_step)
  from lane_switches_step_result [OF this]
  show "heap u = heap t"
    and "u = t \<or>
            (\<exists>veh c. (c = 1 \<or> c = - 1)
               \<and> veh \<in> set (lanes_list t ! i)
               \<and> position (heap t veh) = position (heap t (lanes_list t ! i ! k))
               \<and> lanes_list u =
                   ((lanes_list t)[i := remove1 veh (lanes_list t ! i)])
                     [nat (int i + c) := lanes_list t ! nat (int i + c) @ [veh]])"
    by (simp_all add: same_vehicles_def)
qed

theorem lane_switches_sequential_witness:
  "\<exists>t'. lane_switches passing_track = Inr t'
        \<and> lanes_list t' = [[1], [2], [0]]
        \<and> visit_lanes passing_track [0, 1, 2] t'
        \<and> heap t' = heap passing_track
        \<and> set (concat (lanes_list t')) = {0, 1, 2}
        \<and> distinct (concat (lanes_list t'))
        \<and> \<not> visit_lanes passing_track [0, 1, 2] passing_track
        \<and> \<not> visit_lanes passing_track [0, 1, 2]
              (passing_track\<lparr>lanes_list := [[1], [2, 0], []]\<rparr>)"
proof -
  let ?t' = "passing_track\<lparr>lanes_list := [[1], [2], [0]]\<rparr>"
  have d: "distinct (concat (lanes_list passing_track))"
    and s: "set (concat (lanes_list passing_track)) = {0, 1, 2}"
    and l: "[0..<length (lanes_list passing_track)] = [0, 1, 2]"
    by (auto simp: passing_track_def upt_rec)
  note w = lane_switches_sequential [of passing_track, THEN conjunct1, rule_format,
      OF passing_track_run]
  from w have v: "visit_lanes passing_track [0..<length (lanes_list passing_track)] ?t'"
    and h: "heap ?t' = heap passing_track"
    and e: "set (concat (lanes_list ?t')) = set (concat (lanes_list passing_track))"
    and i: "distinct (concat (lanes_list passing_track)) \<longrightarrow> distinct (concat (lanes_list ?t'))"
    by blast+
  from v l have v': "visit_lanes passing_track [0, 1, 2] ?t'" by simp
  from e s have e': "set (concat (lanes_list ?t')) = {0, 1, 2}" by (rule trans)
  from i d have d': "distinct (concat (lanes_list ?t'))" by (rule mp)
  have l': "lanes_list ?t' = [[1], [2], [0]]" by simp
  have n1: "\<not> visit_lanes passing_track [0, 1, 2] passing_track"
  proof
    assume "visit_lanes passing_track [0, 1, 2] passing_track"
    from passing_track_runs [OF this] show False by (simp add: passing_track_def)
  qed
  have n2: "\<not> visit_lanes passing_track [0, 1, 2]
              (passing_track\<lparr>lanes_list := [[1], [2, 0], []]\<rparr>)"
  proof
    assume "visit_lanes passing_track [0, 1, 2]
              (passing_track\<lparr>lanes_list := [[1], [2, 0], []]\<rparr>)"
    from passing_track_runs [OF this] show False by simp
  qed
  from passing_track_run l' v' h e' d' n1 n2 show ?thesis by blast
qed

section \<open>The decision pass and the leader's acceleration\<close>

lemmas pass_eval =
  Track_init_def VehicleAgent_def VehicleAgent_init_def
  sort_lane_def mean_speed_of_def car_in_front_def get_lane_def py_pos_def pymod_def pymax_def
  calculate_next_state_def compute_decision_def decceleration_rate_def acceleration_rate_def
  staged_speed_def compute_safe_speed_def pymin3_def pymin_def rand_def Let_def

lemma store_decision_kinematics:
  assumes "(let (v', g1) = calculate_next_state (heap t vehicle) gap vL aL d m ma sp g
            in Inr (t\<lparr>heap := (heap t)(vehicle := v')\<rparr>, g1)) = Inr (t', g')"
  shows "lanes_list t' = lanes_list t
       \<and> (\<forall>r. current_speed (heap t' r) = current_speed (heap t r)
              \<and> position (heap t' r) = position (heap t r))"
proof -
  obtain a n g1 where
    "calculate_next_state (heap t vehicle) gap vL aL d m ma sp g
       = ((heap t vehicle)\<lparr>acceleration := a, next_speed := Some n\<rparr>, g1)"
    using calculate_next_state_shape by blast
  with assms have "t' = t\<lparr>heap := (heap t)(vehicle :=
      (heap t vehicle)\<lparr>acceleration := a, next_speed := Some n\<rparr>)\<rparr>"
    by simp
  then show ?thesis by simp
qed

lemma next_state_vehicle_kinematics:
  assumes "next_state_vehicle t i m vehicle g = Inr (t', g')"
  shows "lanes_list t' = lanes_list t
       \<and> (\<forall>r. current_speed (heap t' r) = current_speed (heap t r)
              \<and> position (heap t' r) = position (heap t r))"
proof -
  from assms obtain leader where
    l: "car_in_front t (int i) (position (heap t vehicle)) = Inr (Some leader)"
    by (auto simp: next_state_vehicle_def split: sum.splits option.splits)
  show ?thesis
  proof (cases "leader = vehicle")
    case True
    with assms l show ?thesis
      by (intro store_decision_kinematics [where gap = PInf and vL = PInf and aL = PInf])
         (simp add: next_state_vehicle_def)
  next
    case False
    with assms l show ?thesis
      by (intro store_decision_kinematics
            [where vL = "Fin (current_speed (heap t leader))"
               and aL = "acceleration (heap t leader)"])
         (simp add: next_state_vehicle_def Let_def)
  qed
qed

lemma next_state_vehicles_kinematics:
  assumes "next_state_vehicles t i m vs g = Inr (t', g')"
  shows "lanes_list t' = lanes_list t
       \<and> (\<forall>r. current_speed (heap t' r) = current_speed (heap t r)
              \<and> position (heap t' r) = position (heap t r))"
  using assms
proof (induction vs arbitrary: t g)
  case Nil
  then show ?case by simp
next
  case (Cons vehicle vs)
  then obtain u g1 where u: "next_state_vehicle t i m vehicle g = Inr (u, g1)"
    and r: "next_state_vehicles u i m vs g1 = Inr (t', g')"
    by (auto split: sum.splits)
  from next_state_vehicle_kinematics [OF u] Cons.IH [OF r] show ?case by simp
qed

text \<open>The decision pass commits nothing: it leaves every vehicle's speed and position as
  they were, so gaps and leader speeds are those of the start of the pass whenever they
  are read; of a leader's state only the acceleration can have changed.\<close>

lemma next_state_lanes_kinematics:
  assumes "next_state_lanes t lanes g = Inr (t', g')"
  shows "\<forall>r. current_speed (heap t' r) = current_speed (heap t r)
              \<and> position (heap t' r) = position (heap t r)"
  using assms
proof (induction lanes arbitrary: t g)
  case Nil
  then show ?case by simp
next
  case (Cons i rest)
  let ?t1 = "sort_lane t i"
  from Cons.prems obtain u g1 where
    u: "next_state_vehicles ?t1 i (mean_speed_of ?t1 (lanes_list ?t1 ! i)) (lanes_list ?t1 ! i) g
          = Inr (u, g1)"
    and r: "next_state_lanes u rest g1 = Inr (t', g')"
    by (auto simp: Let_def split: sum.splits)
  have "heap ?t1 = heap t" by (simp add: sort_lane_def)
  with next_state_vehicles_kinematics [OF u] Cons.IH [OF r] show ?case by simp
qed

lemma track_calculate_next_state_kinematics:
  assumes "track_calculate_next_state t g = Inr (t', g')"
  shows "\<forall>r. current_speed (heap t' r) = current_speed (heap t r)
              \<and> position (heap t' r) = position (heap t r)"
  using assms unfolding track_calculate_next_state_def by (rule next_state_lanes_kinematics)

text \<open>
  Claim C5 at a concrete input. On the one-lane ring of the example the pass visits
  vehicle 0 first and writes its new acceleration 1.1. Vehicle 1, whose leader across the
  wrap-around is vehicle 0, is 10 m behind it and decelerates by the emergency formula
  \<open>aL - 0.25 a_normal\<close>: the pass reads \<open>aL = 1.1\<close>, the value just written, and stores the
  acceleration 0.3375 and the staged speed 9.9, where the two-phase reference reads the
  snapshot's \<open>aL = 0\<close> and gives -0.7625 and 9.1375.
\<close>

theorem wrap_around_leader_acceleration:
  "map_sum id (\<lambda>(t', g'). (acceleration (heap t' 1), next_speed (heap t' 1)))
     (track_calculate_next_state ring_track (\<lambda>_. 1 / 2)) = Inr (Fin 0.3375, Some 9.9)
   \<and> map_sum id (\<lambda>(t', g'). (acceleration (heap t' 1), next_speed (heap t' 1)))
     (snapshot_calculate_next_state ring_track (\<lambda>_. 1 / 2)) = Inr (Fin (- 0.7625), Some 9.1375)"
proof
  show "map_sum id (\<lambda>(t', g'). (acceleration (heap t' 1), next_speed (heap t' 1)))
     (track_calculate_next_state ring_track (\<lambda>_. 1 / 2)) = Inr (Fin 0.3375, Some 9.9)"
    by (simp add: track_calculate_next_state_def next_state_vehicle_def ring_track_def
        ring_cars_def pass_eval)
  show "map_sum id (\<lambda>(t', g'). (acceleration (heap t' 1), next_speed (heap t' 1)))
     (snapshot_calculate_next_state ring_track (\<lambda>_. 1 / 2)) = Inr (Fin (- 0.7625), Some 9.1375)"
    by (simp add: snapshot_calculate_next_state_def snapshot_next_state_vehicle_def
        ring_track_def ring_cars_def pass_eval)
qed


end
